theory Spec2Isabelle
  imports Complex_Main "HOL-Library.AList" "HOL-Library.Sublist" "HOL-Library.Multiset"
begin

section \<open>Behaviour tree: data model (behavior\_tree.py)\<close>

text \<open>
  Points in time (\<open>datetime\<close>) are integers: microseconds since \<open>datetime.min\<close>.
  A \<open>timedelta\<close> is a difference of two such integers. The wall clock is a function
  from the number of readings taken so far to the time read; every \<open>datetime.now()\<close>
  of the source takes one reading.
\<close>

type_synonym clock = "nat \<Rightarrow> int"

definition seconds :: "int \<Rightarrow> int" where
  "seconds n = n * 1000000"

datatype StateType = ACTION | CONDITION | COMPOSITE | ROOT

datatype StateStatus = RUNNING | SUCCESS | FAILURE | IDLE

record StateMetadata =
  created_at :: int
  modified_at :: int
  created_by :: string
  execution_count :: int
  last_execution :: "int option"
  average_duration :: rat
  meta_tags :: "string list"

record StateDefinition =
  state_id :: string
  name :: string
  state_type :: StateType
  priority :: int
  conditions :: "string list"
  actions :: "string list"
  children :: "string list"
  metadata :: StateMetadata
  timeout_seconds :: int

text \<open>
  The dictionary written by \<open>StateDefinition.to_dict\<close>: the type is stored by its
  string value, the timestamps by their ISO text (kept as the integer they denote, since
  \<open>fromisoformat\<close> inverts \<open>isoformat\<close>).
\<close>

record state_dict =
  d_id :: string
  d_name :: string
  d_type :: string
  d_priority :: int
  d_conditions :: "string list"
  d_actions :: "string list"
  d_children :: "string list"
  d_timeout_seconds :: int
  d_metadata :: StateMetadata

datatype error = BehaviorTreeError string | ValueError string | KeyError string | OSError string

fun StateType_value :: "StateType \<Rightarrow> string" where
  "StateType_value ACTION = ''action''"
| "StateType_value CONDITION = ''condition''"
| "StateType_value COMPOSITE = ''composite''"
| "StateType_value ROOT = ''root''"

definition StateType_of :: "string \<Rightarrow> StateType option" where
  "StateType_of s =
     (if s = ''action'' then Some ACTION
      else if s = ''condition'' then Some CONDITION
      else if s = ''composite'' then Some COMPOSITE
      else if s = ''root'' then Some ROOT
      else None)"

definition to_dict :: "StateDefinition \<Rightarrow> state_dict" where
  "to_dict d =
     \<lparr> d_id = state_id d, d_name = name d, d_type = StateType_value (state_type d),
       d_priority = priority d, d_conditions = conditions d, d_actions = actions d,
       d_children = children d, d_timeout_seconds = timeout_seconds d,
       d_metadata = metadata d \<rparr>"

definition from_dict :: "state_dict \<Rightarrow> error + StateDefinition" where
  "from_dict data =
     (case StateType_of (d_type data) of
        None \<Rightarrow> Inl (ValueError (d_type data))
      | Some ty \<Rightarrow>
          Inr \<lparr> state_id = d_id data, name = d_name data, state_type = ty,
                priority = d_priority data, conditions = d_conditions data,
                actions = d_actions data, children = d_children data,
                metadata = d_metadata data, timeout_seconds = d_timeout_seconds data \<rparr>)"

subsection \<open>State objects and the manager\<close>

text \<open>
  \<open>BehaviorState\<close> objects are mutable and shared: a parent's \<open>children\<close> list holds
  references to the very objects the registry holds. Objects therefore live in a store,
  a list indexed by address; an object is allocated by appending it. The subclass an
  object was created as is its \<open>cls\<close>, its \<open>definition\<close> attribute is \<open>defn\<close>;
  the class is fixed at creation, whatever happens to
  \<open>definition.type\<close> later. A definition is kept by value in its object: no two
  registered objects share one, and its lists are only replaced or edited through it.
\<close>

type_synonym addr = nat

datatype state_class = ActionState | ConditionState | CompositeState | RootState

record BehaviorState =
  cls :: state_class
  defn :: StateDefinition
  status :: StateStatus
  start_time :: "int option"
  child_states :: "addr list"

text \<open>
  The manager. \<open>states\<close> is the registry dictionary in insertion order, \<open>states_file\<close>
  the content of \<open>behavior_states.json\<close> (\<open>None\<close> while the file does not exist),
  \<open>ticks\<close> the number of clock readings taken so far.
\<close>

record BehaviorTreeManager =
  heap :: "BehaviorState list"
  states :: "(string \<times> addr) list"
  root_state :: addr
  modification_cooldown :: int
  last_modification :: int
  states_file :: "(string \<times> state_dict) list option"
  ticks :: nat

definition datetime_now :: "clock \<Rightarrow> BehaviorTreeManager \<Rightarrow> int \<times> BehaviorTreeManager" where
  "datetime_now clk m = (clk (ticks m), m\<lparr>ticks := Suc (ticks m)\<rparr>)"

definition has_key :: "('k \<times> 'v) list \<Rightarrow> 'k \<Rightarrow> bool" where
  "has_key d k = (k \<in> set (map fst d))"

definition alloc :: "BehaviorState \<Rightarrow> BehaviorTreeManager \<Rightarrow> addr \<times> BehaviorTreeManager" where
  "alloc obj m = (length (heap m), m\<lparr>heap := heap m @ [obj]\<rparr>)"

definition new_state :: "state_class \<Rightarrow> StateDefinition \<Rightarrow> BehaviorState" where
  "new_state c d =
     \<lparr> cls = c, defn = d, status = IDLE, start_time = None, child_states = [] \<rparr>"

definition RootState_init :: "clock \<Rightarrow> BehaviorTreeManager \<Rightarrow> BehaviorState \<times> BehaviorTreeManager" where
  "RootState_init clk m =
     (let (t1, m1) = datetime_now clk m;
          (t2, m2) = datetime_now clk m1
      in (new_state RootState
            \<lparr> state_id = ''root'', name = ''Root State'', state_type = ROOT, priority = 10,
              conditions = [], actions = [], children = [],
              metadata = \<lparr> created_at = t1, modified_at = t2, created_by = ''system'',
                           execution_count = 0, last_execution = None,
                           average_duration = 0, meta_tags = [] \<rparr>,
              timeout_seconds = 300 \<rparr>, m2))"

definition create_state ::
  "clock \<Rightarrow> StateDefinition \<Rightarrow> BehaviorTreeManager \<Rightarrow> BehaviorState \<times> BehaviorTreeManager" where
  "create_state clk d m =
     (case state_type d of
        ACTION \<Rightarrow> (new_state ActionState d, m)
      | CONDITION \<Rightarrow> (new_state ConditionState d, m)
      | COMPOSITE \<Rightarrow> (new_state CompositeState d, m)
      | ROOT \<Rightarrow> RootState_init clk m)"

text \<open>\<open>parent.add_child(child)\<close> and \<open>parent.remove_child(child_id)\<close> on the store.\<close>

definition add_child :: "addr \<Rightarrow> addr \<Rightarrow> BehaviorState list \<Rightarrow> BehaviorState list" where
  "add_child p c h = h[p := (h ! p)\<lparr>child_states := child_states (h ! p) @ [c]\<rparr>]"

definition remove_child :: "addr \<Rightarrow> string \<Rightarrow> BehaviorState list \<Rightarrow> BehaviorState list" where
  "remove_child p child_id h =
     h[p := (h ! p)\<lparr>child_states :=
          filter (\<lambda>c. state_id (defn (h ! c)) \<noteq> child_id) (child_states (h ! p))\<rparr>]"

definition set_definition :: "addr \<Rightarrow> StateDefinition \<Rightarrow> BehaviorState list \<Rightarrow> BehaviorState list" where
  "set_definition a d h = h[a := (h ! a)\<lparr>defn := d\<rparr>]"

definition create_backup :: "BehaviorTreeManager \<Rightarrow> (string \<times> state_dict) list" where
  "create_backup m = map (\<lambda>(k, a). (k, to_dict (defn (heap m ! a)))) (states m)"

text \<open>
  \<open>save_states\<close> writes the serialised registry to the file; \<open>write_ok\<close> says whether the
  write succeeds. Otherwise an \<open>OSError\<close> is raised, and the content of the file is taken
  to stay as it was.
\<close>

definition save_states :: "bool \<Rightarrow> BehaviorTreeManager \<Rightarrow> (error + unit) \<times> BehaviorTreeManager" where
  "save_states write_ok m =
     (if write_ok then (Inr (), m\<lparr>states_file := Some (create_backup m)\<rparr>)
      else (Inl (OSError ''behavior_states.json''), m))"


definition quoted :: "string \<Rightarrow> string" where
  "quoted s = [CHR 0x27] @ s @ [CHR 0x27]"

text \<open>
  \<open>_rebuild_tree_structure\<close>: first every registered object's child list is cleared,
  then every registered object gets, for each id of its \<open>definition.children\<close> that is
  a key of the registry, the object registered under that key.
\<close>

definition clear_children :: "addr \<Rightarrow> BehaviorState list \<Rightarrow> BehaviorState list" where
  "clear_children a h = h[a := (h ! a)\<lparr>child_states := []\<rparr>]"

definition attach_children ::
  "(string \<times> addr) list \<Rightarrow> addr \<Rightarrow> BehaviorState list \<Rightarrow> BehaviorState list" where
  "attach_children reg a h =
     fold (\<lambda>child_id h'. case map_of reg child_id of None \<Rightarrow> h' | Some c \<Rightarrow> add_child a c h')
          (children (defn (h ! a))) h"

definition rebuild_tree_structure :: "BehaviorTreeManager \<Rightarrow> BehaviorTreeManager" where
  "rebuild_tree_structure m =
     (let h1 = fold (\<lambda>(k, a). clear_children a) (states m) (heap m);
          h2 = fold (\<lambda>(k, a). attach_children (states m) a) (states m) h1
      in m\<lparr>heap := h2\<rparr>)"

text \<open>
  The loop of \<open>restore_backup\<close>: each entry is deserialised, a state is made from it by
  the factory and registered under the entry's key. A \<open>ValueError\<close> of \<open>from_dict\<close>
  leaves the loop with what was registered so far.
\<close>

fun restore_loop ::
  "clock \<Rightarrow> (string \<times> state_dict) list \<Rightarrow> BehaviorTreeManager \<Rightarrow> (error + unit) \<times> BehaviorTreeManager" where
  "restore_loop clk [] m = (Inr (), m)"
| "restore_loop clk ((k, data) # rest) m =
     (case from_dict data of
        Inl e \<Rightarrow> (Inl e, m)
      | Inr d \<Rightarrow>
          (let (obj, m1) = create_state clk d m;
               (a, m2) = alloc obj m1
           in restore_loop clk rest (m2\<lparr>states := AList.update k a (states m2)\<rparr>)))"

definition restore_backup ::
  "clock \<Rightarrow> (string \<times> state_dict) list \<Rightarrow> BehaviorTreeManager \<Rightarrow> (error + unit) \<times> BehaviorTreeManager" where
  "restore_backup clk backup m =
     (case restore_loop clk backup (m\<lparr>states := []\<rparr>) of
        (Inl e, m1) \<Rightarrow> (Inl e, m1)
      | (Inr u, m1) \<Rightarrow> (Inr (), rebuild_tree_structure m1))"

text \<open>
  \<open>load_states\<close>: as the loop above, but the entry of key \<open>root\<close> is skipped; any
  exception is logged and swallowed, and then the structure is not rebuilt.
\<close>

fun load_loop ::
  "clock \<Rightarrow> (string \<times> state_dict) list \<Rightarrow> BehaviorTreeManager \<Rightarrow> (error + unit) \<times> BehaviorTreeManager" where
  "load_loop clk [] m = (Inr (), m)"
| "load_loop clk ((k, data) # rest) m =
     (if k = ''root'' then load_loop clk rest m
      else
        (case from_dict data of
           Inl e \<Rightarrow> (Inl e, m)
         | Inr d \<Rightarrow>
             (let (obj, m1) = create_state clk d m;
                  (a, m2) = alloc obj m1
              in load_loop clk rest (m2\<lparr>states := AList.update k a (states m2)\<rparr>))))"

definition load_states :: "clock \<Rightarrow> BehaviorTreeManager \<Rightarrow> BehaviorTreeManager" where
  "load_states clk m =
     (case states_file m of
        None \<Rightarrow> m
      | Some data \<Rightarrow>
          (case load_loop clk data m of
             (Inl e, m1) \<Rightarrow> m1
           | (Inr u, m1) \<Rightarrow> rebuild_tree_structure m1))"

text \<open>
  \<open>BehaviorTreeManager.__init__\<close>, given the clock and the content of the states file
  found in the data directory.
\<close>

definition manager_init :: "clock \<Rightarrow> (string \<times> state_dict) list option \<Rightarrow> BehaviorTreeManager" where
  "manager_init clk file =
     (let m0 = \<lparr> heap = [], states = [], root_state = 0, modification_cooldown = seconds 60,
                 last_modification = 0, states_file = file, ticks = 0 \<rparr>;
          (root, m1) = RootState_init clk m0;
          (a, m2) = alloc root m1;
          m3 = m2\<lparr>root_state := a, states := AList.update ''root'' a (states m2)\<rparr>
      in load_states clk m3)"

subsection \<open>Validation\<close>

text \<open>
  \<open>validate_tree\<close>: the nested \<open>check_cycles\<close> with its shared \<open>visited\<close> set, which is
  threaded through the calls; \<open>path\<close> is copied for each child, so a call sees the path
  of its ancestors only. \<open>check_children\<close> is the \<open>for\<close> loop over the child ids.
\<close>

function check_cycles ::
    "(string \<times> addr) list \<Rightarrow> BehaviorState list \<Rightarrow> string \<Rightarrow> string list \<Rightarrow> string list
       \<Rightarrow> bool \<times> string list"
  and check_children ::
    "(string \<times> addr) list \<Rightarrow> BehaviorState list \<Rightarrow> string list \<Rightarrow> string list \<Rightarrow> string list
       \<Rightarrow> bool \<times> string list" where
  "check_cycles reg h sid path visited =
     (if sid \<in> set path then (False, visited)
      else if sid \<in> set visited then (True, visited)
      else
        (case map_of reg sid of
           None \<Rightarrow> (False, sid # visited)
         | Some a \<Rightarrow> check_children reg h (children (defn (h ! a))) (sid # path) (sid # visited)))"
| "check_children reg h [] path visited = (True, visited)"
| "check_children reg h (c # cs) path visited =
     (case check_cycles reg h c path visited of
        (False, v) \<Rightarrow> (False, v)
      | (True, v) \<Rightarrow> check_children reg h cs path v)"
  by pat_completeness auto
termination
proof (relation "measures
    [\<lambda>x. case x of
            Inl (reg, h, sid, path, visited) \<Rightarrow> card (set (map fst reg) - set path)
          | Inr (reg, h, cs, path, visited) \<Rightarrow> card (set (map fst reg) - set path),
     \<lambda>x. case x of
            Inl (reg, h, sid, path, visited) \<Rightarrow> 0
          | Inr (reg, h, cs, path, visited) \<Rightarrow> Suc (length cs)]", goal_cases)
  case 1
  show ?case by simp
next
  case (2 reg h sid path visited a)
  have "sid \<in> set (map fst reg)"
    using 2(3) by (metis map_of_eq_None_iff option.distinct(1) set_map)
  then have "set (map fst reg) - set (sid # path) \<subset> set (map fst reg) - set path"
    using 2(1) by auto
  then have "card (set (map fst reg) - set (sid # path)) < card (set (map fst reg) - set path)"
    by (intro psubset_card_mono) auto
  then show ?case by simp
next
  case 3
  show ?case by simp
next
  case 4
  show ?case by simp
qed

definition validate_tree :: "BehaviorTreeManager \<Rightarrow> bool" where
  "validate_tree m = fst (check_cycles (states m) (heap m) ''root'' [] [])"


subsection \<open>The manager's operations\<close>

text \<open>
  An entry of the \<open>updates\<close> dictionary of \<open>modify_state\<close>: a field of the
  \<open>StateDefinition\<close> dataclass with a value of the field's declared type, or a key
  that is no attribute of the definition (\<open>Other\<close>; \<open>hasattr\<close> is false and the entry
  is skipped). The dictionary is the list of its entries in order.
\<close>

datatype field_update =
    Set_id string
  | Set_name string
  | Set_type StateType
  | Set_priority int
  | Set_conditions "string list"
  | Set_actions "string list"
  | Set_children "string list"
  | Set_metadata StateMetadata
  | Set_timeout_seconds int
  | Other string

fun setattr :: "field_update \<Rightarrow> StateDefinition \<Rightarrow> StateDefinition" where
  "setattr (Set_id v) d = d\<lparr>state_id := v\<rparr>"
| "setattr (Set_name v) d = d\<lparr>name := v\<rparr>"
| "setattr (Set_type v) d = d\<lparr>state_type := v\<rparr>"
| "setattr (Set_priority v) d = d\<lparr>priority := v\<rparr>"
| "setattr (Set_conditions v) d = d\<lparr>conditions := v\<rparr>"
| "setattr (Set_actions v) d = d\<lparr>actions := v\<rparr>"
| "setattr (Set_children v) d = d\<lparr>children := v\<rparr>"
| "setattr (Set_metadata v) d = d\<lparr>metadata := v\<rparr>"
| "setattr (Set_timeout_seconds v) d = d\<lparr>timeout_seconds := v\<rparr>"
| "setattr (Other k) d = d"

definition apply_updates :: "field_update list \<Rightarrow> StateDefinition \<Rightarrow> StateDefinition" where
  "apply_updates updates d = fold setattr updates d"

definition add_state ::
  "clock \<Rightarrow> bool \<Rightarrow> StateDefinition \<Rightarrow> string \<Rightarrow> BehaviorTreeManager
     \<Rightarrow> (error + bool) \<times> BehaviorTreeManager" where
  "add_state clk write_ok d parent_id m =
     (if has_key (states m) (state_id d) then
        (Inl (BehaviorTreeError (''State with ID '' @ quoted (state_id d) @ '' already exists'')), m)
      else if \<not> has_key (states m) parent_id then
        (Inl (BehaviorTreeError (''Parent state '' @ quoted parent_id @ '' not found'')), m)
      else
        (let (obj, m1) = create_state clk d m;
             (a, m2) = alloc obj m1;
             m3 = m2\<lparr>states := AList.update (state_id d) a (states m2)\<rparr>
         in case map_of (states m3) parent_id of
              None \<Rightarrow> (Inl (KeyError parent_id), m3)
            | Some p \<Rightarrow>
                (let h1 = add_child p a (heap m3);
                     pd = defn (h1 ! p);
                     h2 = (if state_id d \<in> set (children pd) then h1
                           else set_definition p (pd\<lparr>children := children pd @ [state_id d]\<rparr>) h1);
                     m4 = m3\<lparr>heap := h2\<rparr>
                 in case save_states write_ok m4 of
                      (Inl e, m5) \<Rightarrow> (Inl e, m5)
                    | (Inr u, m5) \<Rightarrow> (Inr True, m5))))"

text \<open>
  The body of the loop of \<open>remove_state\<close> for one registered object: \<open>list.remove\<close>
  drops the first occurrence of the id from the definition's list, \<open>remove_child\<close> every
  attached object whose definition carries the id.
\<close>

definition strip_child :: "string \<Rightarrow> addr \<Rightarrow> BehaviorState list \<Rightarrow> BehaviorState list" where
  "strip_child sid a h =
     (let d = defn (h ! a)
      in if sid \<in> set (children d)
         then remove_child a sid (set_definition a (d\<lparr>children := remove1 sid (children d)\<rparr>) h)
         else h)"

definition remove_state ::
  "bool \<Rightarrow> string \<Rightarrow> BehaviorTreeManager \<Rightarrow> (error + bool) \<times> BehaviorTreeManager" where
  "remove_state write_ok sid m =
     (if sid = ''root'' then (Inl (BehaviorTreeError ''Cannot remove root state''), m)
      else if \<not> has_key (states m) sid then
        (Inl (BehaviorTreeError (''State '' @ quoted sid @ '' not found'')), m)
      else
        (let h = fold (\<lambda>(k, a). strip_child sid a) (states m) (heap m);
             m1 = m\<lparr>heap := h, states := AList.delete sid (states m)\<rparr>
         in case save_states write_ok m1 of
              (Inl e, m2) \<Rightarrow> (Inl e, m2)
            | (Inr u, m2) \<Rightarrow> (Inr True, m2)))"

text \<open>
  The \<open>except Exception\<close> handler of \<open>modify_state\<close>: restore the backup and return
  \<open>False\<close>; an exception of the restore itself leaves the method.
\<close>

definition on_exception ::
  "clock \<Rightarrow> (string \<times> state_dict) list \<Rightarrow> BehaviorTreeManager \<Rightarrow> (error + bool) \<times> BehaviorTreeManager" where
  "on_exception clk backup m =
     (case restore_backup clk backup m of
        (Inl e, m1) \<Rightarrow> (Inl e, m1)
      | (Inr u, m1) \<Rightarrow> (Inr False, m1))"

definition modify_state ::
  "clock \<Rightarrow> bool \<Rightarrow> string \<Rightarrow> field_update list \<Rightarrow> BehaviorTreeManager
     \<Rightarrow> (error + bool) \<times> BehaviorTreeManager" where
  "modify_state clk write_ok sid updates m =
     (case map_of (states m) sid of
        None \<Rightarrow> (Inl (BehaviorTreeError (''State '' @ quoted sid @ '' not found'')), m)
      | Some a \<Rightarrow>
          (let (now, m1) = datetime_now clk m
           in if now - last_modification m1 < modification_cooldown m1 then
                (Inl (BehaviorTreeError ''Modification cooldown active''), m1)
              else
                (let backup = create_backup m1;
                     d1 = apply_updates updates (defn (heap m1 ! a));
                     (t1, m2) = datetime_now clk m1;
                     d2 = d1\<lparr>metadata := (metadata d1)\<lparr>modified_at := t1\<rparr>\<rparr>;
                     m3 = m2\<lparr>heap := set_definition a d2 (heap m2)\<rparr>;
                     (t2, m4) = datetime_now clk m3;
                     m5 = m4\<lparr>last_modification := t2\<rparr>
                 in if \<not> validate_tree m5 then
                      (case restore_backup clk backup m5 of
                         (Inl e, m6) \<Rightarrow> on_exception clk backup m6
                       | (Inr u, m6) \<Rightarrow> (Inr False, m6))
                    else
                      (case save_states write_ok m5 of
                         (Inl e, m6) \<Rightarrow> on_exception clk backup m6
                       | (Inr u, m6) \<Rightarrow> (Inr True, m6)))))"

text \<open>
  What the claims observe of a registered node: its registry key, the fields of its
  definition, and the ids carried by the objects attached to it, in order.
\<close>

definition node_definition :: "BehaviorTreeManager \<Rightarrow> string \<Rightarrow> StateDefinition option" where
  "node_definition m k = map_option (\<lambda>a. defn (heap m ! a)) (map_of (states m) k)"

definition attached_ids :: "BehaviorTreeManager \<Rightarrow> string \<Rightarrow> string list option" where
  "attached_ids m k =
     map_option (\<lambda>a. map (\<lambda>c. state_id (defn (heap m ! c))) (child_states (heap m ! a)))
       (map_of (states m) k)"

definition registered_ids :: "BehaviorTreeManager \<Rightarrow> string list" where
  "registered_ids m = map fst (states m)"


section \<open>Behaviour tree: execution\<close>

text \<open>
  The execution context is a dictionary from names to Python values; the model has the
  values whose \<open>str()\<close> it can write down: integers, strings, booleans and \<open>None\<close>.
\<close>

datatype py_value = PInt int | PStr string | PBool bool | PNone

type_synonym exec_context = "(string \<times> py_value) list"

fun nat_str :: "nat \<Rightarrow> string" where
  "nat_str n = (if n < 10 then [char_of (48 + n)] else nat_str (n div 10) @ [char_of (48 + n mod 10)])"

definition int_str :: "int \<Rightarrow> string" where
  "int_str i = (if i < 0 then CHR ''-'' # nat_str (nat (- i)) else nat_str (nat i))"

fun py_str :: "py_value \<Rightarrow> string" where
  "py_str (PInt i) = int_str i"
| "py_str (PStr s) = s"
| "py_str (PBool b) = (if b then ''True'' else ''False'')"
| "py_str PNone = ''None''"

text \<open>
  \<open>s.replace(old, new)\<close> for a non-empty \<open>old\<close>: every occurrence, left to right,
  without overlap. (The code only replaces \<open>{key}\<close>, which is never empty.)
\<close>

function replace :: "string \<Rightarrow> string \<Rightarrow> string \<Rightarrow> string" where
  "replace old new [] = []"
| "replace old new (c # cs) =
     (if old \<noteq> [] \<and> prefix old (c # cs)
      then new @ replace old new (drop (length old) (c # cs))
      else c # replace old new cs)"
  by pat_completeness auto
termination
  by (relation "measure (\<lambda>(old, new, s). length s)") (auto simp: Suc_le_eq)


declare nat_str.simps [simp del]

text \<open>
  What execution takes from its environment: the wall clock; Python's \<open>eval\<close>, applied
  to a condition after substitution, which yields the truth value of the result or
  raises (\<open>None\<close>); and \<open>_execute_action\<close>, which reports success, failure or raises
  (\<open>None\<close>). In the source \<open>_execute_action\<close> is a placeholder that reports success.
\<close>

record env =
  clock :: clock
  py_eval :: "string \<Rightarrow> exec_context \<Rightarrow> bool option"
  execute_action :: "string \<Rightarrow> exec_context \<Rightarrow> bool option"

definition placeholder_action :: "string \<Rightarrow> exec_context \<Rightarrow> bool option" where
  "placeholder_action action cx = Some True"

text \<open>
  A state object together with the objects it owns. \<open>ref\<close> is the object's identity;
  the fields that execution assigns, \<open>status\<close> and \<open>start_time\<close>, are kept per identity
  in the world, next to the number of clock readings taken.
\<close>

datatype node = Node (ref: addr) (node_cls: state_class) (node_defn: StateDefinition)
  (node_children: "node list")

record exec_world =
  w_ticks :: nat
  w_status :: "addr \<Rightarrow> StateStatus"
  w_start_time :: "addr \<Rightarrow> int option"

definition clock_now :: "env \<Rightarrow> exec_world \<Rightarrow> int \<times> exec_world" where
  "clock_now e w = (clock e (w_ticks w), w\<lparr>w_ticks := Suc (w_ticks w)\<rparr>)"

definition set_status :: "addr \<Rightarrow> StateStatus \<Rightarrow> exec_world \<Rightarrow> exec_world" where
  "set_status a s w = w\<lparr>w_status := (w_status w)(a := s)\<rparr>"

definition set_start_time :: "addr \<Rightarrow> int \<Rightarrow> exec_world \<Rightarrow> exec_world" where
  "set_start_time a t w = w\<lparr>w_start_time := (w_start_time w)(a \<mapsto> t)\<rparr>"

text \<open>
  \<open>_evaluate_condition\<close>: every \<open>{key}\<close> is replaced by \<open>str(value)\<close>, key by key in
  the order of the dictionary, and the result is evaluated; an exception counts as false.
\<close>

definition substitute :: "exec_context \<Rightarrow> string \<Rightarrow> string" where
  "substitute cx condition =
     fold (\<lambda>(key, value) c. replace (''{'' @ key @ ''}'') (py_str value) c) cx condition"

definition evaluate_condition :: "env \<Rightarrow> string \<Rightarrow> exec_context \<Rightarrow> bool" where
  "evaluate_condition e condition cx =
     (case py_eval e (substitute cx condition) cx of None \<Rightarrow> False | Some b \<Rightarrow> b)"

fun all_conditions :: "env \<Rightarrow> string list \<Rightarrow> exec_context \<Rightarrow> bool" where
  "all_conditions e [] cx = True"
| "all_conditions e (condition # rest) cx =
     (if \<not> evaluate_condition e condition cx then False else all_conditions e rest cx)"

definition can_execute :: "env \<Rightarrow> StateDefinition \<Rightarrow> exec_context \<Rightarrow> bool" where
  "can_execute e d cx = all_conditions e (conditions d) cx"

definition is_timed_out :: "env \<Rightarrow> addr \<Rightarrow> StateDefinition \<Rightarrow> exec_world \<Rightarrow> bool \<times> exec_world" where
  "is_timed_out e a d w =
     (case w_start_time w a of
        None \<Rightarrow> (False, w)
      | Some t0 \<Rightarrow>
          (let (t, w1) = clock_now e w
           in (t - t0 > seconds (timeout_seconds d), w1)))"

text \<open>
  Besides the status, the model of \<open>execute\<close> returns a record of what the call did,
  which the source does not keep: the actions it ran with their outcomes, the children it
  dispatched with the status each returned, how often it asked \<open>is_timed_out\<close> and
  whether it stopped on a timeout.
\<close>

record run_log =
  ran_actions :: "(string \<times> bool option) list"
  dispatched :: "(node \<times> StateStatus) list"
  timeout_checks :: nat
  timed_out :: bool

definition empty_log :: run_log where
  "empty_log = \<lparr> ran_actions = [], dispatched = [], timeout_checks = 0, timed_out = False \<rparr>"

text \<open>The loop of \<open>ActionState.execute\<close> over the remaining actions.\<close>

fun run_actions ::
  "env \<Rightarrow> exec_context \<Rightarrow> addr \<Rightarrow> StateDefinition \<Rightarrow> string list \<Rightarrow> run_log \<Rightarrow> exec_world
     \<Rightarrow> StateStatus \<times> run_log \<times> exec_world" where
  "run_actions e cx a d [] lg w = (SUCCESS, lg, set_status a SUCCESS w)"
| "run_actions e cx a d (action # rest) lg w =
     (let success = execute_action e action cx;
          lg1 = lg\<lparr>ran_actions := ran_actions lg @ [(action, success)]\<rparr>
      in case success of
           None \<Rightarrow> (FAILURE, lg1, set_status a FAILURE w)
         | Some False \<Rightarrow> (FAILURE, lg1, set_status a FAILURE w)
         | Some True \<Rightarrow>
             (let (late, w1) = is_timed_out e a d w;
                  lg2 = lg1\<lparr>timeout_checks := Suc (timeout_checks lg1)\<rparr>
              in if late then (FAILURE, lg2\<lparr>timed_out := True\<rparr>, set_status a FAILURE w1)
                 else run_actions e cx a d rest lg2 w1))"

definition action_execute ::
  "env \<Rightarrow> exec_context \<Rightarrow> addr \<Rightarrow> StateDefinition \<Rightarrow> exec_world
     \<Rightarrow> StateStatus \<times> run_log \<times> exec_world" where
  "action_execute e cx a d w =
     (if \<not> can_execute e d cx then (FAILURE, empty_log, w)
      else
        (let w1 = set_status a RUNNING w;
             (t, w2) = clock_now e w1;
             w3 = set_start_time a t w2
         in run_actions e cx a d (actions d) empty_log w3))"

definition condition_execute ::
  "env \<Rightarrow> exec_context \<Rightarrow> addr \<Rightarrow> StateDefinition \<Rightarrow> exec_world
     \<Rightarrow> StateStatus \<times> run_log \<times> exec_world" where
  "condition_execute e cx a d w =
     (let w1 = set_status a RUNNING w;
          (t, w2) = clock_now e w1;
          w3 = set_start_time a t w2
      in if can_execute e d cx then (SUCCESS, empty_log, set_status a SUCCESS w3)
         else (FAILURE, empty_log, set_status a FAILURE w3))"

text \<open>
  \<open>sorted(self.children, key=priority, reverse=True)\<close>: Python reverses the list, sorts
  it stably by the key in ascending order, and reverses the result.
\<close>

definition sorted_children :: "node list \<Rightarrow> node list" where
  "sorted_children cs = rev (sort_key (\<lambda>c. priority (node_defn c)) (rev cs))"

text \<open>
  The loop of \<open>CompositeState.execute\<close> over the sorted children. \<open>child.execute\<close> is a
  method of the abstract class, so the loop takes it as the parameter \<open>exec\<close>.
\<close>

fun run_children ::
  "(node \<Rightarrow> exec_world \<Rightarrow> StateStatus \<times> exec_world) \<Rightarrow> env \<Rightarrow> addr \<Rightarrow> StateDefinition
     \<Rightarrow> node list \<Rightarrow> run_log \<Rightarrow> exec_world \<Rightarrow> StateStatus \<times> run_log \<times> exec_world" where
  "run_children exec e a d [] lg w = (SUCCESS, lg, set_status a SUCCESS w)"
| "run_children exec e a d (child # rest) lg w =
     (let (late, w1) = is_timed_out e a d w;
          lg1 = lg\<lparr>timeout_checks := Suc (timeout_checks lg)\<rparr>
      in if late then (FAILURE, lg1\<lparr>timed_out := True\<rparr>, set_status a FAILURE w1)
         else
           (let (child_status, w2) = exec child w1;
                lg2 = lg1\<lparr>dispatched := dispatched lg1 @ [(child, child_status)]\<rparr>
            in if child_status = FAILURE then (FAILURE, lg2, set_status a FAILURE w2)
               else if child_status = RUNNING then (RUNNING, lg2, set_status a RUNNING w2)
               else run_children exec e a d rest lg2 w2))"

definition composite_execute ::
  "(node \<Rightarrow> exec_world \<Rightarrow> StateStatus \<times> exec_world) \<Rightarrow> env \<Rightarrow> exec_context \<Rightarrow> addr
     \<Rightarrow> StateDefinition \<Rightarrow> node list \<Rightarrow> exec_world \<Rightarrow> StateStatus \<times> run_log \<times> exec_world" where
  "composite_execute exec e cx a d cs w =
     (if \<not> can_execute e d cx then (FAILURE, empty_log, w)
      else
        (let w1 = set_status a RUNNING w;
             (t, w2) = clock_now e w1;
             w3 = set_start_time a t w2
         in run_children exec e a d (sorted_children cs) empty_log w3))"

lemma run_children_cong [fundef_cong]:
  assumes "cs = cs'" and "\<And>c w. c \<in> set cs' \<Longrightarrow> exec c w = exec' c w"
  shows "run_children exec e a d cs lg w = run_children exec' e a d cs' lg w"
  unfolding assms(1) using assms(2)
  by (induction cs' arbitrary: lg w) (auto simp: Let_def split: prod.splits)

lemma set_sorted_children [simp]: "set (sorted_children cs) = set cs"
  by (simp add: sorted_children_def)

lemma composite_execute_cong [fundef_cong]:
  assumes "cs = cs'" and "\<And>c w. c \<in> set cs' \<Longrightarrow> exec c w = exec' c w"
  shows "composite_execute exec e cx a d cs w = composite_execute exec' e cx a d cs' w"
  unfolding composite_execute_def assms(1)
  using assms(2) by (auto simp: Let_def split: prod.splits intro!: run_children_cong)

text \<open>
  \<open>execute\<close> by the class of the object. A composite (and the root, which inherits from
  it) hands itself to its children as their caller; of a child's result it uses the status.
\<close>

fun execute :: "env \<Rightarrow> exec_context \<Rightarrow> node \<Rightarrow> exec_world \<Rightarrow> StateStatus \<times> run_log \<times> exec_world" where
  "execute e cx (Node a c d cs) w =
     (case c of
        ActionState \<Rightarrow> action_execute e cx a d w
      | ConditionState \<Rightarrow> condition_execute e cx a d w
      | CompositeState \<Rightarrow>
          composite_execute (\<lambda>child w'. case execute e cx child w' of (s, lg, w'') \<Rightarrow> (s, w''))
            e cx a d cs w
      | RootState \<Rightarrow>
          composite_execute (\<lambda>child w'. case execute e cx child w' of (s, lg, w'') \<Rightarrow> (s, w''))
            e cx a d cs w)"

text \<open>What a composite sees of a child's \<open>execute\<close>: the status, and the world it leaves.\<close>

definition child_execute :: "env \<Rightarrow> exec_context \<Rightarrow> node \<Rightarrow> exec_world \<Rightarrow> StateStatus \<times> exec_world" where
  "child_execute e cx child w = (case execute e cx child w of (s, lg, w') \<Rightarrow> (s, w'))"

text \<open>A child status after which the loop of a composite goes on to the next child.\<close>

definition carries_on :: "StateStatus \<Rightarrow> bool" where
  "carries_on s \<longleftrightarrow> s \<noteq> FAILURE \<and> s \<noteq> RUNNING"

section \<open>Memory system: data model (memory\_system.py)\<close>

text \<open>
  Python's floats are modelled by the rationals they stand for and a float literal by its
  decimal value; the arithmetic of the importance score is therefore exact here. A
  memory's \<open>content\<close> is any Python object: the model keeps apart strings, which the
  scoring inspects, and other payloads. Of the \<open>context\<close> dictionary the code reads the
  keys \<open>tags\<close>, \<open>current_states\<close> and \<open>content\<close>; a key is present or not.
  The field \<open>context\<close> of a memory is \<open>ctx\<close>.
\<close>

datatype MemoryType = EPISODIC | SEMANTIC | WORKING | PROCEDURAL

datatype py_content = Str string | Obj nat

record mem_context =
  ctx_tags :: "string list option"
  ctx_current_states :: "string list option"
  ctx_content :: "string option"

definition empty_context :: mem_context where
  "empty_context = \<lparr> ctx_tags = None, ctx_current_states = None, ctx_content = None \<rparr>"

record Memory =
  mem_id :: string
  content :: py_content
  mem_type :: MemoryType
  importance :: rat
  timestamp :: int
  associated_states :: "string list"
  access_count :: int
  last_accessed :: "int option"
  tags :: "string list"
  ctx :: mem_context

fun MemoryType_value :: "MemoryType \<Rightarrow> string" where
  "MemoryType_value EPISODIC = ''episodic''"
| "MemoryType_value SEMANTIC = ''semantic''"
| "MemoryType_value WORKING = ''working''"
| "MemoryType_value PROCEDURAL = ''procedural''"

definition MemoryType_of :: "string \<Rightarrow> MemoryType option" where
  "MemoryType_of s =
     (if s = ''episodic'' then Some EPISODIC
      else if s = ''semantic'' then Some SEMANTIC
      else if s = ''working'' then Some WORKING
      else if s = ''procedural'' then Some PROCEDURAL
      else None)"

subsection \<open>MemoryStorage: the table \<open>memories\<close>\<close>

text \<open>
  A row of the table, with the columns' values as \<open>store_memory\<close> writes them (the
  pickled content and the JSON texts are kept as the values they encode; the column
  \<open>content_hash\<close> is written and never read, and left out). The type column holds
  text, so reading a row back can fail in \<open>MemoryType(row[3])\<close>. The table is the list
  of its rows in rowid order; \<open>id\<close> is its primary key. \<open>available\<close> says whether the
  database can be opened: when it cannot, every operation raises inside its \<open>try\<close> and
  returns its failure value.
\<close>

record db_row =
  r_id :: string
  r_content :: py_content
  r_type :: string
  r_importance :: rat
  r_timestamp :: int
  r_associated_states :: "string list"
  r_access_count :: int
  r_last_accessed :: "int option"
  r_tags :: "string list"
  r_context :: mem_context

record MemoryStorage =
  memories :: "db_row list"
  available :: bool

definition memory_to_row :: "Memory \<Rightarrow> db_row" where
  "memory_to_row m =
     \<lparr> r_id = mem_id m, r_content = content m, r_type = MemoryType_value (mem_type m),
       r_importance = importance m, r_timestamp = timestamp m,
       r_associated_states = associated_states m, r_access_count = access_count m,
       r_last_accessed = last_accessed m, r_tags = tags m, r_context = ctx m \<rparr>"

definition row_to_memory :: "db_row \<Rightarrow> Memory option" where
  "row_to_memory r =
     (case MemoryType_of (r_type r) of
        None \<Rightarrow> None
      | Some ty \<Rightarrow>
          Some \<lparr> mem_id = r_id r, content = r_content r, mem_type = ty,
                 importance = r_importance r, timestamp = r_timestamp r,
                 associated_states = r_associated_states r, access_count = r_access_count r,
                 last_accessed = r_last_accessed r, tags = r_tags r, ctx = r_context r \<rparr>)"

text \<open>\<open>INSERT OR REPLACE\<close>: a row of the same id is deleted, the new row is appended.\<close>

definition storage_store_memory :: "Memory \<Rightarrow> MemoryStorage \<Rightarrow> bool \<times> MemoryStorage" where
  "storage_store_memory m st =
     (if available st
      then (True, st\<lparr>memories := filter (\<lambda>r. r_id r \<noteq> mem_id m) (memories st) @ [memory_to_row m]\<rparr>)
      else (False, st))"

definition storage_retrieve_memory :: "string \<Rightarrow> MemoryStorage \<Rightarrow> Memory option" where
  "storage_retrieve_memory memory_id st =
     (if available st
      then (case find (\<lambda>r. r_id r = memory_id) (memories st) of
              None \<Rightarrow> None
            | Some r \<Rightarrow> row_to_memory r)
      else None)"

definition delete_memory :: "string \<Rightarrow> MemoryStorage \<Rightarrow> bool \<times> MemoryStorage" where
  "delete_memory memory_id st =
     (if available st
      then (True, st\<lparr>memories := filter (\<lambda>r. r_id r \<noteq> memory_id) (memories st)\<rparr>)
      else (False, st))"

definition get_memory_count :: "MemoryStorage \<Rightarrow> int" where
  "get_memory_count st = (if available st then int (length (memories st)) else 0)"

text \<open>
  The query of \<open>find_memories\<close>. SQL leaves the order among rows that tie on both sort
  keys to the engine, so the engine's \<open>ORDER BY importance DESC, timestamp DESC\<close> is a
  parameter \<open>srt\<close>, constrained by \<open>is_order_by\<close>: it permutes the rows it is given and
  its result is ordered. \<open>stable_order_by\<close> is one such engine (ties stay in rowid
  order). A negative \<open>LIMIT\<close> means no limit in SQLite.
\<close>

definition precedes :: "db_row \<Rightarrow> db_row \<Rightarrow> bool" where
  "precedes a b \<longleftrightarrow>
     r_importance a > r_importance b \<or>
     (r_importance a = r_importance b \<and> r_timestamp a \<ge> r_timestamp b)"

definition is_order_by :: "(db_row list \<Rightarrow> db_row list) \<Rightarrow> bool" where
  "is_order_by srt \<longleftrightarrow>
     (\<forall>rows. mset (srt rows) = mset rows \<and> sorted_wrt precedes (srt rows))"

fun insert_row :: "db_row \<Rightarrow> db_row list \<Rightarrow> db_row list" where
  "insert_row r [] = [r]"
| "insert_row r (x # xs) = (if precedes x r then x # insert_row r xs else r # x # xs)"

definition stable_order_by :: "db_row list \<Rightarrow> db_row list" where
  "stable_order_by rows = fold insert_row rows []"

definition sql_limit :: "int \<Rightarrow> 'a list \<Rightarrow> 'a list" where
  "sql_limit n xs = (if n < 0 then xs else take (nat n) xs)"

definition matches :: "rat \<Rightarrow> MemoryType option \<Rightarrow> db_row \<Rightarrow> bool" where
  "matches min_importance memory_type r \<longleftrightarrow>
     r_importance r \<ge> min_importance \<and>
     (case memory_type of None \<Rightarrow> True | Some t \<Rightarrow> r_type r = MemoryType_value t)"

definition select_memories ::
  "(db_row list \<Rightarrow> db_row list) \<Rightarrow> db_row list \<Rightarrow> MemoryType option \<Rightarrow> rat \<Rightarrow> int \<Rightarrow> db_row list" where
  "select_memories srt tbl memory_type min_importance limit =
     sql_limit limit (srt (filter (matches min_importance memory_type) tbl))"

text \<open>
  \<open>tags and not any(tag in memory.tags for tag in tags)\<close>: the row is dropped when a
  non-empty tag list is given and the memory carries none of its tags.
\<close>

definition tag_filtered_out :: "string list option \<Rightarrow> Memory \<Rightarrow> bool" where
  "tag_filtered_out tgs m =
     (case tgs of
        None \<Rightarrow> False
      | Some ts \<Rightarrow> ts \<noteq> [] \<and> \<not> list_ex (\<lambda>t. t \<in> set (tags m)) ts)"

text \<open>
  The loop over the fetched rows: a row that cannot be deserialised is skipped with a
  warning, a row filtered out by the tags is skipped, any other is appended.
\<close>

fun collect_rows :: "string list option \<Rightarrow> db_row list \<Rightarrow> Memory list \<Rightarrow> Memory list" where
  "collect_rows tgs [] acc = acc"
| "collect_rows tgs (r # rs) acc =
     (case row_to_memory r of
        None \<Rightarrow> collect_rows tgs rs acc
      | Some m \<Rightarrow>
          (if tag_filtered_out tgs m then collect_rows tgs rs acc
           else collect_rows tgs rs (acc @ [m])))"

definition find_memories ::
  "(db_row list \<Rightarrow> db_row list) \<Rightarrow> MemoryStorage \<Rightarrow> MemoryType option \<Rightarrow> rat \<Rightarrow> int
     \<Rightarrow> string list option \<Rightarrow> Memory list" where
  "find_memories srt st memory_type min_importance limit tgs =
     (if available st
      then collect_rows tgs (select_memories srt (memories st) memory_type min_importance limit) []
      else [])"

subsection \<open>ImportanceCalculator\<close>

text \<open>
  \<open>str.lower\<close> and \<open>str.split\<close> on ASCII text: \<open>split()\<close> cuts at runs of
  whitespace and yields no empty word.
\<close>

definition char_lower :: "char \<Rightarrow> char" where
  "char_lower c =
     (let n = (of_char c :: nat) in if 65 \<le> n \<and> n \<le> 90 then char_of (n + 32) else c)"

definition py_lower :: "string \<Rightarrow> string" where
  "py_lower s = map char_lower s"

definition is_space :: "char \<Rightarrow> bool" where
  "is_space c = ((of_char c :: nat) \<in> set [9, 10, 11, 12, 13, 28, 29, 30, 31, 32])"

fun split_from :: "string \<Rightarrow> string \<Rightarrow> string list" where
  "split_from cur [] = (if cur = [] then [] else [cur])"
| "split_from cur (c # cs) =
     (if is_space c then (if cur = [] then split_from [] cs else cur # split_from [] cs)
      else split_from (cur @ [c]) cs)"

definition py_split :: "string \<Rightarrow> string list" where
  "py_split s = split_from [] s"

definition context_get :: "'a option \<Rightarrow> 'a \<Rightarrow> 'a" where
  "context_get v dflt = (case v of None \<Rightarrow> dflt | Some x \<Rightarrow> x)"

text \<open>
  The three blocks of \<open>_calculate_relevance\<close>, each giving what it adds to
  \<open>relevance\<close>: the ratio when its guard holds, nothing otherwise.
\<close>

definition tag_term :: "Memory \<Rightarrow> mem_context \<Rightarrow> rat" where
  "tag_term m c =
     (let context_tags = context_get (ctx_tags c) []
      in if context_tags \<noteq> [] \<and> tags m \<noteq> []
         then of_nat (card (set context_tags \<inter> set (tags m)))
                / of_nat (max (length context_tags) (length (tags m)))
         else 0)"

definition state_term :: "Memory \<Rightarrow> mem_context \<Rightarrow> rat" where
  "state_term m c =
     (let current_states = context_get (ctx_current_states c) []
      in if current_states \<noteq> [] \<and> associated_states m \<noteq> []
         then of_nat (card (set current_states \<inter> set (associated_states m)))
                / of_nat (max (length current_states) (length (associated_states m)))
         else 0)"

definition content_term :: "Memory \<Rightarrow> mem_context \<Rightarrow> rat" where
  "content_term m c =
     (let current_content = context_get (ctx_content c) []
      in if current_content \<noteq> [] then
           (case content m of
              Obj x \<Rightarrow> 0
            | Str text \<Rightarrow>
                (let current_words = set (py_split (py_lower current_content));
                     memory_words = set (py_split (py_lower text))
                 in if current_words \<noteq> {} \<and> memory_words \<noteq> {}
                    then of_nat (card (current_words \<inter> memory_words))
                           / of_nat (max (card current_words) (card memory_words))
                    else 0))
         else 0)"

definition calculate_relevance :: "Memory \<Rightarrow> mem_context \<Rightarrow> rat" where
  "calculate_relevance m c = min 1 (0 + tag_term m c + state_term m c + content_term m c)"

definition count_in :: "string list \<Rightarrow> string \<Rightarrow> nat" where
  "count_in ws text = length (filter (\<lambda>w. sublist w text) ws)"

definition extract_emotional_weight :: "Memory \<Rightarrow> rat" where
  "extract_emotional_weight m =
     (case content m of
        Obj x \<Rightarrow> 1 / 2
      | Str text \<Rightarrow>
          (let c = py_lower text;
               positive_count =
                 count_in [''happy'', ''joy'', ''excited'', ''great'', ''wonderful'', ''amazing''] c;
               negative_count =
                 count_in [''sad'', ''angry'', ''frustrated'', ''terrible'', ''awful'', ''hate''] c;
               important_count =
                 count_in [''important'', ''critical'', ''urgent'', ''remember'', ''key''] c;
               emotional_weight =
                 1 / 2 + of_nat (positive_count + negative_count + important_count) * (1 / 10)
           in min 1 (max 0 emotional_weight)))"

text \<open>
  \<open>calculate_importance\<close>; \<open>now\<close> is the reading of \<open>datetime.now()\<close> it takes, and
  \<open>total_seconds()\<close> of the age is the age in microseconds over a million.
\<close>

definition calculate_importance :: "int \<Rightarrow> Memory \<Rightarrow> mem_context \<Rightarrow> rat" where
  "calculate_importance now m c =
     (let time_diff = now - timestamp m;
          recency_score = max (1 / 10) (1 - (of_int time_diff / 1000000) / (30 * 24 * 3600));
          frequency_score = min 1 (of_int (access_count m) / 10);
          relevance_score = calculate_relevance m c;
          emotional_score = extract_emotional_weight m;
          state_score = min 1 (of_nat (length (associated_states m)) * (2 / 10));
          weighted_score =
            recency_score * (3 / 10) + frequency_score * (2 / 10) + relevance_score * (3 / 10)
              + emotional_score * (1 / 10) + state_score * (1 / 10)
      in max 0 (min 1 weighted_score))"

subsection \<open>MemoryManager\<close>

text \<open>
  The manager: the durable storage, the working-memory cache (a dictionary in insertion
  order), the capacity, the number of consolidation tasks handed to the event loop and
  not yet run, and the number of clock readings taken so far.
\<close>

record MemoryManager =
  storage :: MemoryStorage
  working_memory :: "(string \<times> Memory) list"
  max_memories :: int
  scheduled_consolidations :: nat
  reads :: nat

definition read_clock :: "clock \<Rightarrow> MemoryManager \<Rightarrow> int \<times> MemoryManager" where
  "read_clock clk mgr = (clk (reads mgr), mgr\<lparr>reads := Suc (reads mgr)\<rparr>)"

definition days :: "int \<Rightarrow> int" where
  "days n = seconds (n * 24 * 3600)"

text \<open>
  \<open>store_memory\<close>; \<open>new_id\<close> is the text of the UUID drawn by \<open>uuid.uuid4()\<close>, and an
  argument left out (\<open>None\<close>) stands for the empty list or dictionary.
\<close>

definition store_memory ::
  "clock \<Rightarrow> string \<Rightarrow> py_content \<Rightarrow> MemoryType \<Rightarrow> string list option \<Rightarrow> mem_context option
     \<Rightarrow> string list option \<Rightarrow> MemoryManager \<Rightarrow> string \<times> MemoryManager" where
  "store_memory clk new_id cont memory_type tgs c assoc mgr =
     (let (t0, mgr1) = read_clock clk mgr;
          memory = \<lparr> mem_id = new_id, content = cont, mem_type = memory_type,
                     importance = 1 / 2, timestamp = t0,
                     associated_states = context_get assoc [], access_count = 0,
                     last_accessed = None, tags = context_get tgs [],
                     ctx = context_get c empty_context \<rparr>;
          (t1, mgr2) = read_clock clk mgr1;
          memory1 = memory\<lparr>importance :=
                      calculate_importance t1 memory (context_get c empty_context)\<rparr>;
          mgr3 = (if memory_type = WORKING
                  then mgr2\<lparr>working_memory := AList.update new_id memory1 (working_memory mgr2)\<rparr>
                  else mgr2\<lparr>storage := snd (storage_store_memory memory1 (storage mgr2))\<rparr>);
          mgr4 = (if get_memory_count (storage mgr3) > max_memories mgr3
                  then mgr3\<lparr>scheduled_consolidations := Suc (scheduled_consolidations mgr3)\<rparr>
                  else mgr3)
      in (new_id, mgr4))"

text \<open>
  \<open>retrieve_memory\<close>: the object found is updated in place (so a cached object changes
  in the cache) and written to the storage unless its type is \<open>WORKING\<close>.
\<close>

definition touch :: "clock \<Rightarrow> Memory \<Rightarrow> MemoryManager \<Rightarrow> Memory \<times> MemoryManager" where
  "touch clk m mgr =
     (let m1 = m\<lparr>access_count := access_count m + 1\<rparr>;
          (t0, mgr1) = read_clock clk mgr;
          m2 = m1\<lparr>last_accessed := Some t0\<rparr>;
          (t1, mgr2) = read_clock clk mgr1;
          m3 = m2\<lparr>importance := calculate_importance t1 m2 empty_context\<rparr>
      in (m3, mgr2))"

definition persist :: "Memory \<Rightarrow> MemoryManager \<Rightarrow> MemoryManager" where
  "persist m mgr =
     (if mem_type m \<noteq> WORKING
      then mgr\<lparr>storage := snd (storage_store_memory m (storage mgr))\<rparr>
      else mgr)"

definition retrieve_memory ::
  "clock \<Rightarrow> string \<Rightarrow> MemoryManager \<Rightarrow> Memory option \<times> MemoryManager" where
  "retrieve_memory clk memory_id mgr =
     (case map_of (working_memory mgr) memory_id of
        Some m \<Rightarrow>
          (let (m1, mgr1) = touch clk m mgr;
               mgr2 = mgr1\<lparr>working_memory := AList.update memory_id m1 (working_memory mgr1)\<rparr>
           in (Some m1, persist m1 mgr2))
      | None \<Rightarrow>
          (case storage_retrieve_memory memory_id (storage mgr) of
             None \<Rightarrow> (None, mgr)
           | Some m \<Rightarrow>
               (let (m1, mgr1) = touch clk m mgr
                in (Some m1, persist m1 mgr1))))"

definition clear_working_memory :: "MemoryManager \<Rightarrow> MemoryManager" where
  "clear_working_memory mgr = mgr\<lparr>working_memory := []\<rparr>"

text \<open>
  \<open>_consolidate_memories\<close>. \<open>removable\<close> is the test of the inner loop,
  \<open>remove_all\<close> the loop that deletes and counts; the count is what the method logs.
\<close>

definition removable :: "int \<Rightarrow> Memory \<Rightarrow> bool" where
  "removable cutoff_date m \<longleftrightarrow>
     timestamp m < cutoff_date \<and> importance m < 3 / 10 \<and> access_count m < 2"

fun remove_all :: "string list \<Rightarrow> MemoryStorage \<Rightarrow> nat \<Rightarrow> nat \<times> MemoryStorage" where
  "remove_all [] st removed_count = (removed_count, st)"
| "remove_all (memory_id # ids) st removed_count =
     (case delete_memory memory_id st of
        (True, st1) \<Rightarrow> remove_all ids st1 (Suc removed_count)
      | (False, st1) \<Rightarrow> remove_all ids st1 removed_count)"

definition candidates ::
  "(db_row list \<Rightarrow> db_row list) \<Rightarrow> MemoryStorage \<Rightarrow> int \<Rightarrow> MemoryType \<Rightarrow> string list" where
  "candidates srt st cutoff_date memory_type =
     map mem_id (filter (removable cutoff_date) (find_memories srt st (Some memory_type) 0 1000 None))"

definition consolidate_memories ::
  "(db_row list \<Rightarrow> db_row list) \<Rightarrow> clock \<Rightarrow> MemoryManager \<Rightarrow> nat \<times> MemoryManager" where
  "consolidate_memories srt clk mgr =
     (let (now, mgr1) = read_clock clk mgr;
          cutoff_date = now - days 30;
          memories_to_remove =
            candidates srt (storage mgr1) cutoff_date EPISODIC
              @ candidates srt (storage mgr1) cutoff_date SEMANTIC;
          (removed_count, st) = remove_all (take 100 memories_to_remove) (storage mgr1) 0
      in (removed_count, mgr1\<lparr>storage := st\<rparr>))"

subsection \<open>Example trees\<close>

definition example_clock :: clock where
  "example_clock n = seconds 100 + int n"

definition example_metadata :: StateMetadata where
  "example_metadata =
     \<lparr> created_at = 7, modified_at = 7, created_by = ''system'', execution_count = 0,
       last_execution = None, average_duration = 0, meta_tags = [] \<rparr>"

definition example_action :: "string \<Rightarrow> StateDefinition" where
  "example_action i =
     \<lparr> state_id = i, name = ''Action'', state_type = ACTION, priority = 5,
       conditions = [], actions = [''act''], children = [],
       metadata = example_metadata, timeout_seconds = 1 \<rparr>"

text \<open>A fresh manager without a states file, after \<open>add_state(a1)\<close> under the root.\<close>

definition tree_a1 :: BehaviorTreeManager where
  "tree_a1 =
     snd (add_state example_clock True (example_action ''a1'') ''root''
            (manager_init example_clock None))"

text \<open>The same after \<open>add_state(a2)\<close> under the root.\<close>

definition tree_a1_a2 :: BehaviorTreeManager where
  "tree_a1_a2 = snd (add_state example_clock True (example_action ''a2'') ''root'' tree_a1)"

text \<open>\<open>tree_a1\<close> after the successful \<open>modify_state("a1", {"name": "renamed"})\<close>.\<close>

definition tree_a1_renamed :: BehaviorTreeManager where
  "tree_a1_renamed =
     snd (modify_state example_clock True ''a1'' [Set_name ''renamed''] tree_a1)"

subsection \<open>Example nodes\<close>

text \<open>An evaluator for comparisons \<open>i>j\<close> of two integer literals.\<close>

definition parse_nat :: "string \<Rightarrow> nat option" where
  "parse_nat s =
     (if s \<noteq> [] \<and> list_all (\<lambda>c. 48 \<le> (of_char c :: nat) \<and> (of_char c :: nat) \<le> 57) s
      then Some (fold (\<lambda>c n. 10 * n + (of_char c - 48)) s 0)
      else None)"

definition parse_int :: "string \<Rightarrow> int option" where
  "parse_int s =
     (case s of
        [] \<Rightarrow> None
      | c # r \<Rightarrow> if c = CHR ''-'' then map_option (\<lambda>n. - int n) (parse_nat r)
                 else map_option int (parse_nat s))"

definition eval_comparison :: "string \<Rightarrow> exec_context \<Rightarrow> bool option" where
  "eval_comparison s cx =
     (let l = takeWhile (\<lambda>c. c \<noteq> CHR ''>'') s;
          r = drop (Suc (length l)) s
      in if length l < length s
         then (case (parse_int l, parse_int r) of
                 (Some x, Some y) \<Rightarrow> Some (x > y)
               | _ \<Rightarrow> None)
         else None)"

definition example_env :: env where
  "example_env =
     \<lparr> clock = example_clock, py_eval = eval_comparison, execute_action = placeholder_action \<rparr>"

definition fresh_world :: exec_world where
  "fresh_world = \<lparr> w_ticks = 0, w_status = (\<lambda>a. IDLE), w_start_time = (\<lambda>a. None) \<rparr>"

definition a1_node :: node where
  "a1_node = Node 1 ActionState ((example_action ''a1'')\<lparr>conditions := [''{x}>0'']\<rparr>) []"

text \<open>
  A root that owns, in this order, the action \<open>lo\<close> (priority 1, condition \<open>{x}>0\<close>)
  and the action \<open>hi\<close> (priority 10, no condition); and a composite with the condition
  \<open>{x}>0\<close> that owns \<open>hi\<close>.
\<close>

definition hi_node :: node where
  "hi_node = Node 2 ActionState ((example_action ''hi'')\<lparr>priority := 10\<rparr>) []"

definition lo_node :: node where
  "lo_node = Node 3 ActionState ((example_action ''lo'')\<lparr>priority := 1, conditions := [''{x}>0'']\<rparr>) []"

definition example_root_definition :: StateDefinition where
  "example_root_definition =
     \<lparr> state_id = ''root'', name = ''Root State'', state_type = ROOT, priority = 10,
       conditions = [], actions = [], children = [''lo'', ''hi''],
       metadata = example_metadata, timeout_seconds = 300 \<rparr>"

definition root_node :: node where
  "root_node = Node 0 RootState example_root_definition [lo_node, hi_node]"

definition guarded_definition :: StateDefinition where
  "guarded_definition =
     \<lparr> state_id = ''guarded'', name = ''Guarded'', state_type = COMPOSITE, priority = 5,
       conditions = [''{x}>0''], actions = [], children = [''hi''],
       metadata = example_metadata, timeout_seconds = 300 \<rparr>"

definition guarded_node :: node where
  "guarded_node = Node 4 CompositeState guarded_definition [hi_node]"

definition x_is :: "int \<Rightarrow> exec_context" where
  "x_is i = [(''x'', PInt i)]"

text \<open>
  A clock whose readings are 400 seconds apart, the example environment with that clock,
  and the world in which the clock has been read \<open>n\<close> times and the node at address
  \<open>a\<close> was started at time \<open>t\<close>.
\<close>

definition jump_clock :: clock where
  "jump_clock n = seconds (400 * int n)"

definition jump_env :: env where
  "jump_env = example_env\<lparr>clock := jump_clock\<rparr>"

definition started_world :: "addr \<Rightarrow> int \<Rightarrow> nat \<Rightarrow> exec_world" where
  "started_world a t n = set_start_time a t (fresh_world\<lparr>w_ticks := n\<rparr>)"

subsection \<open>Example memories\<close>

text \<open>
  A store of four records written at time 0, and a clock that starts 31 days later. The
  record \<open>m2\<close> is the only one that is episodic or semantic, old, of low importance and
  rarely accessed.
\<close>

definition example_row :: "string \<Rightarrow> string \<Rightarrow> rat \<Rightarrow> int \<Rightarrow> int \<Rightarrow> string list \<Rightarrow> db_row" where
  "example_row i ty imp ts n tgs =
     \<lparr> r_id = i, r_content = Str ''note'', r_type = ty, r_importance = imp, r_timestamp = ts,
       r_associated_states = [], r_access_count = n, r_last_accessed = None, r_tags = tgs,
       r_context = empty_context \<rparr>"

definition example_storage :: MemoryStorage where
  "example_storage =
     \<lparr> memories =
         [example_row ''m1'' ''episodic'' (9 / 10) 0 0 [],
          example_row ''m2'' ''episodic'' (1 / 10) 0 0 [''x''],
          example_row ''m3'' ''semantic'' (2 / 10) 0 5 [''x''],
          example_row ''m4'' ''procedural'' (1 / 10) 0 0 []],
       available = True \<rparr>"

definition example_manager :: MemoryManager where
  "example_manager =
     \<lparr> storage = example_storage, working_memory = [], max_memories = 10000,
       scheduled_consolidations = 0, reads = 0 \<rparr>"

definition late_clock :: clock where
  "late_clock n = days 31 + int n"


definition stale_row :: db_row where
  "stale_row = example_row ''m2'' ''episodic'' (1 / 10) 0 0 [''x'']"

text \<open>A memory without tags, without associated states and with a payload that is no string.\<close>

definition example_memory :: Memory where
  "example_memory = \<lparr> mem_id = ''m1'', content = Obj 0, mem_type = EPISODIC, importance = 1 / 2,
       timestamp = 0, associated_states = [], access_count = 0, last_accessed = None,
       tags = [], ctx = empty_context \<rparr>"

definition example_context :: mem_context where
  "example_context =
     \<lparr> ctx_tags = Some [''x''], ctx_current_states = Some [''s''],
       ctx_content = Some ''hello world'' \<rparr>"

section \<open>Behaviour tree: rollback, round trip and ownership\<close>

text \<open>
  Claim C1 says that a failed \<open>modify_state\<close> leaves the tree exactly as it was before
  the call, the root's child list included. The code does not: the rollback goes through
  \<open>StateFactory.create_state\<close>, which answers a definition of type \<open>ROOT\<close> with a fresh
  \<open>RootState()\<close> and drops the restored definition. On the tree with the single action
  \<open>a1\<close> under the root, \<open>modify_state("a1", {"children": ["a1"]})\<close> makes a cycle, fails
  validation and returns \<open>False\<close>; before the call the root's definition lists \<open>a1\<close> and
  the root owns the object of \<open>a1\<close>, after it both lists are empty.
\<close>

theorem failed_modify_state_drops_root_children:
  "(case modify_state example_clock True ''a1'' [Set_children [''a1'']] tree_a1 of
      (r, m') \<Rightarrow>
        r = Inr False \<and>
        registered_ids m' = registered_ids tree_a1 \<and>
        map_option children (node_definition tree_a1 ''root'') = Some [''a1''] \<and>
        map_option children (node_definition m' ''root'') = Some [] \<and>
        attached_ids tree_a1 ''root'' = Some [''a1''] \<and>
        attached_ids m' ''root'' = Some [])"
  by code_simp

text \<open>
  Claim C2 says that \<open>restore_backup(create_backup())\<close> reproduces the graph, the node
  \<open>root\<close> included. On the same tree the round trip keeps the registered ids but
  returns the root with an empty child list and no attached object: the same defect of
  the factory as in C1.
\<close>

theorem backup_round_trip_drops_root_children:
  "(case restore_backup example_clock (create_backup tree_a1) tree_a1 of
      (r, m') \<Rightarrow>
        r = Inr () \<and>
        registered_ids m' = registered_ids tree_a1 \<and>
        map_option children (node_definition tree_a1 ''root'') = Some [''a1''] \<and>
        map_option children (node_definition m' ''root'') = Some [] \<and>
        attached_ids tree_a1 ''root'' = Some [''a1''] \<and>
        attached_ids m' ''root'' = Some [])"
  by code_simp

text \<open>
  Claim C3 says that after every manager operation the objects attached to a node mirror
  its \<open>definition.children\<close>. \<open>modify_state\<close> assigns the new list to the definition
  and never touches the attached objects: on the tree with \<open>a1\<close> and \<open>a2\<close> under the
  root, the successful \<open>modify_state("root", {"children": ["a2"]})\<close> leaves the
  definition with \<open>[a2]\<close> and the root owning the objects of \<open>a1\<close> and \<open>a2\<close>.
\<close>

theorem modify_state_children_out_of_sync:
  "(case modify_state example_clock True ''root'' [Set_children [''a2'']] tree_a1_a2 of
      (r, m') \<Rightarrow>
        r = Inr True \<and>
        map_option children (node_definition tree_a1_a2 ''root'') = Some [''a1'', ''a2''] \<and>
        attached_ids tree_a1_a2 ''root'' = Some [''a1'', ''a2''] \<and>
        map_option children (node_definition m' ''root'') = Some [''a2''] \<and>
        attached_ids m' ''root'' = Some [''a1'', ''a2''])"
  by code_simp

section \<open>Behaviour tree: the modification cooldown\<close>

lemma on_exception_not_True: "on_exception clk backup m \<noteq> (Inr True, m')"
  by (auto simp: on_exception_def split: prod.splits sum.splits)

lemma modify_state_True:
  assumes "modify_state clk w sid ups m = (Inr True, m1)"
  shows "last_modification m1 = clk (ticks m + 2) \<and>
         modification_cooldown m1 = modification_cooldown m \<and> ticks m1 = ticks m + 3"
proof (cases "map_of (states m) sid")
  case None
  with assms show ?thesis by (simp add: modify_state_def)
next
  case (Some a)
  show ?thesis
  proof (cases "clk (ticks m) - last_modification m < modification_cooldown m")
    case True
    with Some assms show ?thesis by (simp add: modify_state_def datetime_now_def)
  next
    case False
    with Some assms show ?thesis
      by (auto simp: modify_state_def datetime_now_def Let_def save_states_def
            on_exception_not_True split: if_splits prod.splits sum.splits)
  qed
qed

lemma has_key_map_of: "has_key d k \<Longrightarrow> \<exists>a. map_of d k = Some a"
proof -
  assume "has_key d k"
  then have "map_of d k \<noteq> None"
    by (simp add: has_key_def map_of_eq_None_iff)
  then show ?thesis by auto
qed

lemma modify_state_cooldown_active:
  assumes "has_key (states m) sid"
    and "clk (ticks m) - last_modification m < modification_cooldown m"
  shows "modify_state clk w sid ups m =
           (Inl (BehaviorTreeError ''Modification cooldown active''), m\<lparr>ticks := Suc (ticks m)\<rparr>)"
proof -
  from has_key_map_of [OF assms(1)] obtain a where "map_of (states m) sid = Some a" ..
  with assms(2) show ?thesis
    by (simp add: modify_state_def datetime_now_def)
qed

text \<open>
  Claim C4 as stated fails on the code in its last part: \<open>last_modification\<close> is stamped
  before the tree is validated and the rollback does not reset it, so a call whose
  validation failed does start a cooldown window. On \<open>tree_a1\<close> no modification has
  happened yet (\<open>last_modification\<close> is \<open>datetime.min\<close>) and a rename of \<open>a1\<close> would
  succeed; after the failed \<open>modify_state("a1", {"children": ["a1"]})\<close> the same rename,
  a few microseconds later, is refused with the cooldown error.
\<close>

theorem failed_validation_starts_cooldown:
  "(case modify_state example_clock True ''a1'' [Set_children [''a1'']] tree_a1 of
      (r, m') \<Rightarrow>
        r = Inr False \<and>
        last_modification tree_a1 = 0 \<and>
        fst (modify_state example_clock True ''a1'' [Set_name ''renamed''] tree_a1) = Inr True \<and>
        example_clock (ticks m') - example_clock (ticks tree_a1) < seconds 60 \<and>
        fst (modify_state example_clock True ''a1'' [Set_name ''renamed''] m') =
          Inl (BehaviorTreeError ''Modification cooldown active''))"
  by code_simp

text \<open>
  Claim C4 as amended. The error raised is the \<open>BehaviorTreeError\<close> with the message
  ``Modification cooldown active'' (the code has no \<open>RateLimitError\<close>), and the window
  is counted from \<open>last_modification\<close>. For a manager \<open>m\<close> and an id registered in it:
  \<^item> a \<open>modify_state\<close> whose clock reading is less than \<open>modification_cooldown\<close> after
    \<open>last_modification\<close> raises that error and returns the manager as it was but for
    the clock reading taken, so no registry entry, definition field or child list
    changes;
  \<^item> in particular, after a \<open>modify_state\<close> that returned \<open>True\<close> (its stamp is its
    third clock reading), every \<open>modify_state\<close> on a registered id that reads the clock
    less than the cooldown after that stamp is refused in this way;
  \<^item> the cooldown of a fresh manager is 60 seconds.
\<close>

theorem modify_state_within_cooldown_rejected:
  "(has_key (states m) sid \<and> clk (ticks m) - last_modification m < modification_cooldown m \<longrightarrow>
      modify_state clk w sid ups m =
        (Inl (BehaviorTreeError ''Modification cooldown active''), m\<lparr>ticks := Suc (ticks m)\<rparr>) \<and>
      node_definition (snd (modify_state clk w sid ups m)) k = node_definition m k \<and>
      attached_ids (snd (modify_state clk w sid ups m)) k = attached_ids m k \<and>
      registered_ids (snd (modify_state clk w sid ups m)) = registered_ids m) \<and>
   (modify_state clk w sid ups m = (Inr True, m1) \<and> has_key (states m1) sid2 \<and>
    clk (ticks m1) - clk (ticks m + 2) < modification_cooldown m \<longrightarrow>
      modify_state clk w2 sid2 ups2 m1 =
        (Inl (BehaviorTreeError ''Modification cooldown active''), m1\<lparr>ticks := Suc (ticks m1)\<rparr>)) \<and>
   modification_cooldown (manager_init clk None) = seconds 60"
proof (intro conjI impI)
  assume h: "has_key (states m) sid \<and>
             clk (ticks m) - last_modification m < modification_cooldown m"
  then have eq: "modify_state clk w sid ups m =
      (Inl (BehaviorTreeError ''Modification cooldown active''), m\<lparr>ticks := Suc (ticks m)\<rparr>)"
    by (simp add: modify_state_cooldown_active)
  show "modify_state clk w sid ups m =
      (Inl (BehaviorTreeError ''Modification cooldown active''), m\<lparr>ticks := Suc (ticks m)\<rparr>)"
    by (rule eq)
  show "node_definition (snd (modify_state clk w sid ups m)) k = node_definition m k"
    by (simp add: eq node_definition_def)
  show "attached_ids (snd (modify_state clk w sid ups m)) k = attached_ids m k"
    by (simp add: eq attached_ids_def)
  show "registered_ids (snd (modify_state clk w sid ups m)) = registered_ids m"
    by (simp add: eq registered_ids_def)
next
  assume h: "modify_state clk w sid ups m = (Inr True, m1) \<and> has_key (states m1) sid2 \<and>
             clk (ticks m1) - clk (ticks m + 2) < modification_cooldown m"
  then have "last_modification m1 = clk (ticks m + 2)"
        and "modification_cooldown m1 = modification_cooldown m"
    using modify_state_True by blast+
  with h show "modify_state clk w2 sid2 ups2 m1 =
      (Inl (BehaviorTreeError ''Modification cooldown active''), m1\<lparr>ticks := Suc (ticks m1)\<rparr>)"
    by (simp add: modify_state_cooldown_active)
next
  show "modification_cooldown (manager_init clk None) = seconds 60"
    by (simp add: manager_init_def RootState_init_def datetime_now_def alloc_def
          load_states_def Let_def)
qed

theorem modify_state_within_cooldown_rejected_witness:
  "has_key (states tree_a1_renamed) ''a1'' \<and>
   example_clock (ticks tree_a1_renamed) - last_modification tree_a1_renamed
     < modification_cooldown tree_a1_renamed \<and>
   modify_state example_clock True ''a1'' [Set_name ''renamed''] tree_a1 = (Inr True, tree_a1_renamed) \<and>
   example_clock (ticks tree_a1_renamed) - example_clock (ticks tree_a1 + 2)
     < modification_cooldown tree_a1 \<and>
   modify_state example_clock True ''a1'' [Set_priority 9] tree_a1_renamed =
     (Inl (BehaviorTreeError ''Modification cooldown active''),
      tree_a1_renamed\<lparr>ticks := Suc (ticks tree_a1_renamed)\<rparr>)"
proof -
  have k: "has_key (states tree_a1_renamed) ''a1''"
    by code_simp
  have c: "example_clock (ticks tree_a1_renamed) - last_modification tree_a1_renamed
             < modification_cooldown tree_a1_renamed"
    by code_simp
  have t: "modify_state example_clock True ''a1'' [Set_name ''renamed''] tree_a1
             = (Inr True, tree_a1_renamed)"
    by code_simp
  have c2: "example_clock (ticks tree_a1_renamed) - example_clock (ticks tree_a1 + 2)
              < modification_cooldown tree_a1"
    by code_simp
  have first: "modify_state example_clock True ''a1'' [Set_priority 9] tree_a1_renamed =
     (Inl (BehaviorTreeError ''Modification cooldown active''),
      tree_a1_renamed\<lparr>ticks := Suc (ticks tree_a1_renamed)\<rparr>)"
    using modify_state_within_cooldown_rejected
            [where m = tree_a1_renamed and sid = "''a1''" and clk = example_clock and w = True
               and ups = "[Set_priority 9]",
             THEN conjunct1, rule_format, OF conjI, OF k c]
    by (rule conjunct1)
  have second: "modify_state example_clock True ''a1'' [Set_priority 9] tree_a1_renamed =
     (Inl (BehaviorTreeError ''Modification cooldown active''),
      tree_a1_renamed\<lparr>ticks := Suc (ticks tree_a1_renamed)\<rparr>)"
    using modify_state_within_cooldown_rejected
            [where m = tree_a1 and sid = "''a1''" and clk = example_clock and w = True
               and ups = "[Set_name ''renamed'']" and ?m1.0 = tree_a1_renamed
               and ?sid2.0 = "''a1''" and ?w2.0 = True and ?ups2.0 = "[Set_priority 9]",
             THEN conjunct2, THEN conjunct1, rule_format, OF conjI, OF t conjI, OF k c2] .
  show ?thesis
    using k c t c2 first by (intro conjI)
qed


section \<open>Memory: the importance score\<close>

lemma overlap_le: "card (set xs \<inter> set ys) \<le> max (length xs) (length ys)"
proof -
  have "card (set xs \<inter> set ys) \<le> card (set xs)"
    by (simp add: card_mono)
  also have "\<dots> \<le> length xs" by (rule card_length)
  finally show ?thesis by simp
qed

lemma card_overlap_le: "finite A \<Longrightarrow> card (A \<inter> B) \<le> max (card A) (card B)"
  by (meson card_mono inf_le1 le_max_iff_disj)

lemma ratio_le_1: "(a::nat) \<le> b \<Longrightarrow> (of_nat a :: rat) / of_nat b \<le> 1"
  by (cases "b = 0") (simp_all add: divide_le_eq_1)

lemma tag_term_unit: "0 \<le> tag_term m c \<and> tag_term m c \<le> 1"
  by (auto simp: tag_term_def Let_def intro!: ratio_le_1 overlap_le)

lemma state_term_unit: "0 \<le> state_term m c \<and> state_term m c \<le> 1"
  by (auto simp: state_term_def Let_def intro!: ratio_le_1 overlap_le)

lemma content_term_unit: "0 \<le> content_term m c \<and> content_term m c \<le> 1"
  by (auto simp: content_term_def Let_def split: py_content.splits
        intro!: ratio_le_1 card_overlap_le)

text \<open>
  Claim C8. For every memory, context and clock reading, \<open>calculate_importance\<close>
  returns a value between 0 and 1; the relevance factor is the sum of three terms capped
  at 1, none of them negative; and a term is zero as soon as one of the two collections it
  compares is empty: the context's or the memory's tags, the current or the associated
  states, the words of the context's or of the memory's content (a content that is no
  string has no words).
\<close>

theorem importance_in_unit_interval:
  "0 \<le> calculate_importance now m c \<and> calculate_importance now m c \<le> 1 \<and>
   calculate_relevance m c = min 1 (tag_term m c + state_term m c + content_term m c) \<and>
   0 \<le> tag_term m c \<and> 0 \<le> state_term m c \<and> 0 \<le> content_term m c \<and>
   (context_get (ctx_tags c) [] = [] \<or> tags m = [] \<longrightarrow> tag_term m c = 0) \<and>
   (context_get (ctx_current_states c) [] = [] \<or> associated_states m = [] \<longrightarrow> state_term m c = 0) \<and>
   (context_get (ctx_content c) [] = [] \<or> (\<exists>x. content m = Obj x) \<or>
    py_split (py_lower (context_get (ctx_content c) [])) = [] \<or>
    (\<exists>text. content m = Str text \<and> py_split (py_lower text) = []) \<longrightarrow> content_term m c = 0)"
proof (intro conjI)
  show "0 \<le> calculate_importance now m c" "calculate_importance now m c \<le> 1"
    by (simp_all add: calculate_importance_def Let_def)
  show "calculate_relevance m c = min 1 (tag_term m c + state_term m c + content_term m c)"
    by (simp add: calculate_relevance_def)
  show "0 \<le> tag_term m c" "0 \<le> state_term m c" "0 \<le> content_term m c"
    using tag_term_unit state_term_unit content_term_unit by blast+
  show "context_get (ctx_tags c) [] = [] \<or> tags m = [] \<longrightarrow> tag_term m c = 0"
    by (auto simp: tag_term_def)
  show "context_get (ctx_current_states c) [] = [] \<or> associated_states m = [] \<longrightarrow> state_term m c = 0"
    by (auto simp: state_term_def)
  show "context_get (ctx_content c) [] = [] \<or> (\<exists>x. content m = Obj x) \<or>
    py_split (py_lower (context_get (ctx_content c) [])) = [] \<or>
    (\<exists>text. content m = Str text \<and> py_split (py_lower text) = []) \<longrightarrow> content_term m c = 0"
    by (auto simp: content_term_def Let_def split: py_content.splits)
qed

theorem importance_in_unit_interval_witness:
  "tags example_memory = [] \<and> associated_states example_memory = [] \<and>
   content example_memory = Obj 0 \<and>
   tag_term example_memory example_context = 0 \<and>
   state_term example_memory example_context = 0 \<and>
   content_term example_memory example_context = 0 \<and>
   0 \<le> calculate_importance (days 1) example_memory example_context \<and>
   calculate_importance (days 1) example_memory example_context \<le> 1"
proof -
  have t: "tags example_memory = []" and a: "associated_states example_memory = []"
    and c: "content example_memory = Obj 0"
    by (simp_all add: example_memory_def)
  note inst = importance_in_unit_interval [of "days 1" example_memory example_context]
  from inst t have "tag_term example_memory example_context = 0" by blast
  moreover from inst a have "state_term example_memory example_context = 0" by blast
  moreover from inst c have "content_term example_memory example_context = 0" by blast
  moreover from inst have "0 \<le> calculate_importance (days 1) example_memory example_context"
    and "calculate_importance (days 1) example_memory example_context \<le> 1" by blast+
  ultimately show ?thesis using t a c by (intro conjI)
qed

section \<open>Memory: working memories stay in the cache\<close>

lemma store_working:
  "store_memory clk new_id cont WORKING tgs c assoc mgr = (i, mgr') \<Longrightarrow>
     i = new_id \<and> storage mgr' = storage mgr \<and> (\<exists>m. map_of (working_memory mgr') new_id = Some m \<and> mem_type m = WORKING \<and> mem_id m = new_id \<and> content m = cont)"
  by (auto simp: store_memory_def read_clock_def Let_def update_conv' split: if_splits)

lemma find_None_iff: "find P xs = None \<longleftrightarrow> (\<forall>x\<in>set xs. \<not> P x)"
  by (induction xs) auto

lemma storage_retrieve_absent:
  "memory_id \<notin> set (map r_id (memories st)) \<Longrightarrow> storage_retrieve_memory memory_id st = None"
proof -
  assume "memory_id \<notin> set (map r_id (memories st))"
  then have "find (\<lambda>r. r_id r = memory_id) (memories st) = None"
    by (auto simp: find_None_iff)
  then show ?thesis by (simp add: storage_retrieve_memory_def)
qed

lemma retrieve_working_keeps_storage:
  "map_of (working_memory mgr) k = Some m \<Longrightarrow> mem_type m = WORKING \<Longrightarrow>
     storage (snd (retrieve_memory clk k mgr)) = storage mgr"
  by (simp add: retrieve_memory_def touch_def read_clock_def persist_def Let_def)

text \<open>
  Claim C9. Storing a memory of type \<open>WORKING\<close> returns the id drawn, puts the memory
  in the working-memory cache under that id and leaves the durable storage as it was;
  retrieving it from the cache does not write it to the storage either.
  \<open>clear_working_memory\<close> empties the cache and leaves the storage as it was. Hence,
  the id drawn being fresh (no durable record carries it, which is what \<open>uuid4\<close>
  provides), storing a working memory, clearing the cache and retrieving the id returns
  \<open>None\<close> and changes nothing.
\<close>

theorem working_memory_never_persisted:
  "storage (snd (store_memory clk new_id cont WORKING tgs c assoc mgr)) = storage mgr \<and>
   fst (store_memory clk new_id cont WORKING tgs c assoc mgr) = new_id \<and>
   (\<exists>m. map_of (working_memory (snd (store_memory clk new_id cont WORKING tgs c assoc mgr))) new_id = Some m
        \<and> mem_type m = WORKING \<and> content m = cont) \<and>
   storage (snd (retrieve_memory clk2 new_id (snd (store_memory clk new_id cont WORKING tgs c assoc mgr))))
     = storage mgr \<and>
   storage (clear_working_memory mgr2) = storage mgr2 \<and>
   working_memory (clear_working_memory mgr2) = [] \<and>
   (new_id \<notin> set (map r_id (memories (storage mgr))) \<longrightarrow>
      retrieve_memory clk2 new_id
        (clear_working_memory (snd (store_memory clk new_id cont WORKING tgs c assoc mgr)))
      = (None, clear_working_memory (snd (store_memory clk new_id cont WORKING tgs c assoc mgr))))"
proof -
  obtain i mgr' where s: "store_memory clk new_id cont WORKING tgs c assoc mgr = (i, mgr')"
    by (cases "store_memory clk new_id cont WORKING tgs c assoc mgr")
  from store_working [OF s] obtain m where
    i: "i = new_id" and st: "storage mgr' = storage mgr"
    and m: "map_of (working_memory mgr') new_id = Some m" "mem_type m = WORKING" "content m = cont"
    by blast
  have r: "storage (snd (retrieve_memory clk2 new_id mgr')) = storage mgr"
    using retrieve_working_keeps_storage [OF m(1) m(2)] st by simp
  have a: "new_id \<notin> set (map r_id (memories (storage mgr))) \<longrightarrow>
      retrieve_memory clk2 new_id (clear_working_memory mgr') = (None, clear_working_memory mgr')"
    using st by (simp add: retrieve_memory_def clear_working_memory_def storage_retrieve_absent)
  show ?thesis
    using i st m r a by (simp add: s clear_working_memory_def)
qed

theorem working_memory_never_persisted_witness:
  "''w1'' \<notin> set (map r_id (memories (storage example_manager))) \<and>
   retrieve_memory late_clock ''w1''
     (clear_working_memory
        (snd (store_memory late_clock ''w1'' (Str ''draft'') WORKING None None None example_manager)))
   = (None, clear_working_memory
        (snd (store_memory late_clock ''w1'' (Str ''draft'') WORKING None None None example_manager))) \<and>
   storage (snd (store_memory late_clock ''w1'' (Str ''draft'') WORKING None None None example_manager))
     = storage example_manager"
proof -
  have f: "''w1'' \<notin> set (map r_id (memories (storage example_manager)))"
    by code_simp
  note inst = working_memory_never_persisted
      [where new_id = "''w1''" and mgr = example_manager and clk = late_clock
         and ?clk2.0 = late_clock and cont = "Str ''draft''" and tgs = None and c = None
         and assoc = None and ?mgr2.0 = example_manager]
  from inst f have "retrieve_memory late_clock ''w1''
     (clear_working_memory
        (snd (store_memory late_clock ''w1'' (Str ''draft'') WORKING None None None example_manager)))
   = (None, clear_working_memory
        (snd (store_memory late_clock ''w1'' (Str ''draft'') WORKING None None None example_manager)))"
    by blast
  moreover from inst have
    "storage (snd (store_memory late_clock ''w1'' (Str ''draft'') WORKING None None None example_manager))
       = storage example_manager"
    by blast
  ultimately show ?thesis using f by (intro conjI)
qed

section \<open>Memory: queries and consolidation\<close>

lemma collect_rows_eq:
  "collect_rows tgs rows acc =
     acc @ filter (\<lambda>m. \<not> tag_filtered_out tgs m) (List.map_filter row_to_memory rows)"
  by (induction rows arbitrary: acc) (simp_all add: map_filter_simps split: option.splits)

lemma precedes_total: "\<not> precedes x r \<Longrightarrow> precedes r x"
  by (auto simp: precedes_def)

lemma precedes_trans: "precedes a b \<Longrightarrow> precedes b c \<Longrightarrow> precedes a c"
  by (auto simp: precedes_def)

lemma mset_insert_row: "mset (insert_row r xs) = add_mset r (mset xs)"
  by (induction xs) auto

lemma set_insert_row: "set (insert_row r xs) = insert r (set xs)"
  by (induction xs) auto

lemma sorted_insert_row: "sorted_wrt precedes xs \<Longrightarrow> sorted_wrt precedes (insert_row r xs)"
proof (induction xs)
  case Nil
  then show ?case by simp
next
  case (Cons x xs)
  show ?case
  proof (cases "precedes x r")
    case True
    with Cons show ?thesis by (auto simp: set_insert_row)
  next
    case False
    then have rx: "precedes r x" by (rule precedes_total)
    with Cons.prems have "\<forall>y\<in>set xs. precedes r y"
      by (auto intro: precedes_trans)
    with False rx Cons.prems show ?thesis by simp
  qed
qed

lemma fold_insert_row:
  "mset (fold insert_row rows acc) = mset rows + mset acc \<and>
   (sorted_wrt precedes acc \<longrightarrow> sorted_wrt precedes (fold insert_row rows acc))"
  by (induction rows arbitrary: acc) (simp_all add: mset_insert_row sorted_insert_row)

lemma stable_order_by_is_order_by: "is_order_by stable_order_by"
  using fold_insert_row [of _ "[]"] by (simp add: is_order_by_def stable_order_by_def)

lemma order_by_set: "is_order_by srt \<Longrightarrow> set (srt rows) = set rows"
  unfolding is_order_by_def by (metis set_mset_mset)

lemma sql_limit_subset: "set (sql_limit n xs) \<subseteq> set xs"
  by (auto simp: sql_limit_def dest: in_set_takeD)

lemma row_to_memory_fields:
  "row_to_memory r = Some m \<Longrightarrow>
     mem_id m = r_id r \<and> importance m = r_importance r \<and> timestamp m = r_timestamp r \<and>
     access_count m = r_access_count r \<and> tags m = r_tags r"
  by (auto simp: row_to_memory_def split: option.splits)

lemma find_memories_rows:
  assumes "is_order_by srt" and "m \<in> set (find_memories srt st mt mi limit tgs)"
  shows "\<exists>r\<in>set (memories st). row_to_memory r = Some m \<and> matches mi mt r"
proof -
  from assms(2) have av: "available st"
    by (auto simp: find_memories_def split: if_splits)
  with assms(2) have "m \<in> set (List.map_filter row_to_memory (select_memories srt (memories st) mt mi limit))"
    by (auto simp: find_memories_def collect_rows_eq)
  then obtain r where r: "r \<in> set (select_memories srt (memories st) mt mi limit)" "row_to_memory r = Some m"
    by (auto simp: map_filter_def)
  from r(1) have "r \<in> set (srt (filter (matches mi mt) (memories st)))"
    using sql_limit_subset [of limit "srt (filter (matches mi mt) (memories st))"]
    by (auto simp: select_memories_def)
  then have "r \<in> set (memories st) \<and> matches mi mt r"
    using order_by_set [OF assms(1)] by auto
  with r(2) show ?thesis by blast
qed

lemma candidates_rows:
  assumes "is_order_by srt" and "i \<in> set (candidates srt st cutoff t)"
  shows "\<exists>r\<in>set (memories st). r_id r = i \<and> r_type r = MemoryType_value t \<and>
           r_timestamp r < cutoff \<and> r_importance r < 3 / 10 \<and> r_access_count r < 2"
proof -
  from assms(2) obtain m where m: "m \<in> set (find_memories srt st (Some t) 0 1000 None)"
      "removable cutoff m" "mem_id m = i"
    by (auto simp: candidates_def)
  from find_memories_rows [OF assms(1) m(1)] obtain r where
    r: "r \<in> set (memories st)" "row_to_memory r = Some m" "matches 0 (Some t) r"
    by blast
  from row_to_memory_fields [OF r(2)] m(2,3) r(3) have
    "r_id r = i \<and> r_type r = MemoryType_value t \<and>
           r_timestamp r < cutoff \<and> r_importance r < 3 / 10 \<and> r_access_count r < 2"
    by (simp add: removable_def matches_def)
  with r(1) show ?thesis by blast
qed

lemma remove_all_eq:
  "remove_all ids st n =
     (if available st
      then (n + length ids, st\<lparr>memories := filter (\<lambda>r. r_id r \<notin> set ids) (memories st)\<rparr>)
      else (n, st))"
proof (induction ids arbitrary: st n)
  case Nil
  then show ?case by simp
next
  case (Cons i ids)
  show ?case
    by (simp add: Cons.IH delete_memory_def conj_commute cong: filter_cong)
qed

lemma removed_le:
  assumes "distinct (map r_id rows)"
  shows "length (filter (\<lambda>r. r_id r \<in> set ids) rows) \<le> length ids"
proof -
  let ?xs = "map r_id (filter (\<lambda>r. r_id r \<in> set ids) rows)"
  have d: "distinct ?xs"
    using assms by (simp add: distinct_map_filter)
  have "set ?xs \<subseteq> set ids" by auto
  then have "card (set ?xs) \<le> card (set ids)"
    by (simp add: card_mono)
  also have "\<dots> \<le> length ids" by (rule card_length)
  finally have "card (set ?xs) \<le> length ids" .
  moreover have "card (set ?xs) = length ?xs"
    using d by (rule distinct_card)
  ultimately show ?thesis by simp
qed

text \<open>
  Claim C7. For every engine order and every table whose ids are distinct (\<open>id\<close> is the
  primary key), one pass of \<open>_consolidate_memories\<close> only deletes: the table afterwards
  holds rows of the table before, at most 100 fewer, and the count it logs is at most 100.
  Every row deleted is of type
  episodic or semantic, has a timestamp more than 30 days before the clock reading of the
  pass, an importance below 0.3 and an access count below 2; so a row with an access count
  of 2 or more, or an importance of 0.3 or more, or an age of 30 days or less is kept.
\<close>

theorem consolidation_removes_only_stale:
  "is_order_by srt \<and> distinct (map r_id (memories (storage mgr))) \<longrightarrow>
     (let before = memories (storage mgr);
          after = memories (storage (snd (consolidate_memories srt clk mgr)));
          cutoff = clk (reads mgr) - days 30
      in length after \<le> length before \<and> length before - length after \<le> 100 \<and>
         fst (consolidate_memories srt clk mgr) \<le> 100 \<and>
         set after \<subseteq> set before \<and>
         (\<forall>r\<in>set before. r \<notin> set after \<longrightarrow>
            (r_type r = ''episodic'' \<or> r_type r = ''semantic'') \<and> r_timestamp r < cutoff \<and>
            r_importance r < 3 / 10 \<and> r_access_count r < 2) \<and>
         (\<forall>r\<in>set before.
            r_access_count r \<ge> 2 \<or> r_importance r \<ge> 3 / 10 \<or> r_timestamp r \<ge> cutoff \<longrightarrow>
            r \<in> set after))"
proof (intro impI, elim conjE)
  assume ord: "is_order_by srt" and dist: "distinct (map r_id (memories (storage mgr)))"
  define before where "before = memories (storage mgr)"
  define cutoff where "cutoff = clk (reads mgr) - days 30"
  define ids where "ids = take 100 (candidates srt (storage mgr) cutoff EPISODIC
                                     @ candidates srt (storage mgr) cutoff SEMANTIC)"
  define after where "after = memories (storage (snd (consolidate_memories srt clk mgr)))"
  have after_eq: "after = (if available (storage mgr)
                           then filter (\<lambda>r. r_id r \<notin> set ids) before else before)"
    by (simp add: after_def before_def ids_def cutoff_def consolidate_memories_def
          read_clock_def Let_def remove_all_eq)
  have ids_rows: "\<exists>r\<in>set before. r_id r = i \<and> (r_type r = ''episodic'' \<or> r_type r = ''semantic'') \<and>
           r_timestamp r < cutoff \<and> r_importance r < 3 / 10 \<and> r_access_count r < 2"
    if "i \<in> set ids" for i
  proof -
    from that have "i \<in> set (candidates srt (storage mgr) cutoff EPISODIC)
                   \<or> i \<in> set (candidates srt (storage mgr) cutoff SEMANTIC)"
      by (auto simp: ids_def dest: in_set_takeD)
    then show ?thesis
      using candidates_rows [OF ord, of i "storage mgr" cutoff]
      by (fastforce simp: before_def)
  qed
  have stale: "(r_type r = ''episodic'' \<or> r_type r = ''semantic'') \<and> r_timestamp r < cutoff \<and>
            r_importance r < 3 / 10 \<and> r_access_count r < 2"
    if r: "r \<in> set before" "r \<notin> set after" for r
  proof -
    from r have "r_id r \<in> set ids"
      by (auto simp: after_eq split: if_splits)
    from ids_rows [OF this] obtain r' where r': "r' \<in> set before" "r_id r' = r_id r"
      and c: "(r_type r' = ''episodic'' \<or> r_type r' = ''semantic'') \<and> r_timestamp r' < cutoff \<and>
            r_importance r' < 3 / 10 \<and> r_access_count r' < 2"
      by blast
    from dist r(1) r' have "r' = r"
      unfolding before_def by (meson distinct_map inj_onD)
    with c show ?thesis by simp
  qed
  have len: "length before = length (filter (\<lambda>r. r_id r \<in> set ids) before)
                              + length (filter (\<lambda>r. r_id r \<notin> set ids) before)"
    using sum_length_filter_compl [of "\<lambda>r. r_id r \<in> set ids" before] by simp
  have removed: "length (filter (\<lambda>r. r_id r \<in> set ids) before) \<le> 100"
  proof -
    have "length (filter (\<lambda>r. r_id r \<in> set ids) before) \<le> length ids"
      using removed_le dist by (simp add: before_def)
    also have "\<dots> \<le> 100" by (simp add: ids_def)
    finally show ?thesis .
  qed
  have l1: "length after \<le> length before" and l2: "length before - length after \<le> 100"
    using len removed by (auto simp: after_eq)
  have sub: "set after \<subseteq> set before"
    by (auto simp: after_eq)
  have cnt: "fst (consolidate_memories srt clk mgr) \<le> 100"
  proof -
    have "fst (consolidate_memories srt clk mgr) = (if available (storage mgr) then length ids else 0)"
      by (simp add: consolidate_memories_def read_clock_def Let_def remove_all_eq ids_def
            cutoff_def del: take_append length_take)
    moreover have "length ids \<le> 100"
      unfolding ids_def by (simp del: take_append)
    ultimately show ?thesis by simp
  qed
  have keep: "r \<in> set after"
    if "r \<in> set before" "r_access_count r \<ge> 2 \<or> r_importance r \<ge> 3 / 10 \<or> r_timestamp r \<ge> cutoff" for r
    using that stale [of r] by fastforce
  show "let before = memories (storage mgr);
          after = memories (storage (snd (consolidate_memories srt clk mgr)));
          cutoff = clk (reads mgr) - days 30
      in length after \<le> length before \<and> length before - length after \<le> 100 \<and>
         fst (consolidate_memories srt clk mgr) \<le> 100 \<and>
         set after \<subseteq> set before \<and>
         (\<forall>r\<in>set before. r \<notin> set after \<longrightarrow>
            (r_type r = ''episodic'' \<or> r_type r = ''semantic'') \<and> r_timestamp r < cutoff \<and>
            r_importance r < 3 / 10 \<and> r_access_count r < 2) \<and>
         (\<forall>r\<in>set before.
            r_access_count r \<ge> 2 \<or> r_importance r \<ge> 3 / 10 \<or> r_timestamp r \<ge> cutoff \<longrightarrow>
            r \<in> set after)"
    unfolding Let_def
    using l1 l2 cnt sub stale keep
    unfolding before_def after_def cutoff_def by blast
qed

theorem consolidation_removes_only_stale_witness:
  "is_order_by stable_order_by \<and>
   distinct (map r_id (memories (storage example_manager))) \<and>
   length (memories (storage (snd (consolidate_memories stable_order_by late_clock example_manager))))
     \<le> length (memories (storage example_manager)) \<and>
   length (memories (storage example_manager))
     - length (memories (storage (snd (consolidate_memories stable_order_by late_clock example_manager))))
     \<le> 100 \<and>
   stale_row \<in> set (memories (storage example_manager)) \<and>
   stale_row \<notin> set (memories (storage (snd (consolidate_memories stable_order_by late_clock example_manager)))) \<and>
   r_timestamp stale_row < late_clock (reads example_manager) - days 30 \<and>
   r_importance stale_row < 3 / 10 \<and> r_access_count stale_row < 2"
proof -
  have o: "is_order_by stable_order_by"
    by (rule stable_order_by_is_order_by)
  have d: "distinct (map r_id (memories (storage example_manager)))"
    by code_simp
  note inst = consolidation_removes_only_stale
      [where srt = stable_order_by and mgr = example_manager and clk = late_clock,
       unfolded Let_def, rule_format, OF conjI, OF o d]
  have i: "stale_row \<in> set (memories (storage example_manager))"
    by code_simp
  have n: "stale_row \<notin> set (memories (storage (snd (consolidate_memories stable_order_by late_clock example_manager))))"
    by code_simp
  from inst have s: "(r_type stale_row = ''episodic'' \<or> r_type stale_row = ''semantic'') \<and>
      r_timestamp stale_row < late_clock (reads example_manager) - days 30 \<and>
      r_importance stale_row < 3 / 10 \<and> r_access_count stale_row < 2"
    using i n by blast
  from inst have l: "length (memories (storage (snd (consolidate_memories stable_order_by late_clock example_manager))))
     \<le> length (memories (storage example_manager))"
    "length (memories (storage example_manager))
     - length (memories (storage (snd (consolidate_memories stable_order_by late_clock example_manager))))
     \<le> 100"
    by blast+
  show ?thesis
    using o d i n s l by (intro conjI) simp_all
qed

text \<open>
  Claim C10. \<open>find_memories\<close> with a non-empty \<open>tags\<close> argument takes the limit first
  and filters by tag afterwards: with the database available and a limit that is not
  negative, the result is the tagged part of the memories read from the first \<open>limit\<close>
  rows, in the engine's order by importance and then timestamp (both descending), among
  the rows that match the type and the minimum importance. So fewer than \<open>limit\<close>
  tagged memories can come back while the store holds more of them: in the example store
  two records match and carry the tag \<open>x\<close>, and the query with limit 1 returns none, since
  the first row in the order is the untagged \<open>m1\<close>.
\<close>

theorem find_memories_tags_after_limit:
  "(available st \<and> 0 \<le> limit \<and> tgs \<noteq> [] \<longrightarrow>
      find_memories srt st memory_type min_importance limit (Some tgs) =
        filter (\<lambda>m. list_ex (\<lambda>t. t \<in> set (tags m)) tgs)
          (List.map_filter row_to_memory
             (take (nat limit)
                (srt (filter (matches min_importance memory_type) (memories st)))))) \<and>
   (is_order_by srt \<longrightarrow>
      sorted_wrt precedes (srt (filter (matches min_importance memory_type) (memories st))) \<and>
      mset (srt (filter (matches min_importance memory_type) (memories st)))
        = mset (filter (matches min_importance memory_type) (memories st))) \<and>
   find_memories stable_order_by example_storage None 0 1 (Some [''x'']) = [] \<and>
   length (filter (\<lambda>r. matches 0 None r \<and> ''x'' \<in> set (r_tags r)) (memories example_storage)) = 2"
proof (intro conjI impI)
  assume "available st \<and> 0 \<le> limit \<and> tgs \<noteq> []"
  then show "find_memories srt st memory_type min_importance limit (Some tgs) =
        filter (\<lambda>m. list_ex (\<lambda>t. t \<in> set (tags m)) tgs)
          (List.map_filter row_to_memory
             (take (nat limit)
                (srt (filter (matches min_importance memory_type) (memories st)))))"
    by (simp add: find_memories_def collect_rows_eq select_memories_def sql_limit_def
          tag_filtered_out_def)
next
  assume "is_order_by srt"
  then show "sorted_wrt precedes (srt (filter (matches min_importance memory_type) (memories st)))"
    and "mset (srt (filter (matches min_importance memory_type) (memories st)))
        = mset (filter (matches min_importance memory_type) (memories st))"
    by (simp_all add: is_order_by_def)
next
  show "find_memories stable_order_by example_storage None 0 1 (Some [''x'']) = []"
    by code_simp
  show "length (filter (\<lambda>r. matches 0 None r \<and> ''x'' \<in> set (r_tags r)) (memories example_storage)) = 2"
    by code_simp
qed

theorem find_memories_tags_after_limit_witness:
  "available example_storage \<and> (0::int) \<le> 3 \<and> [''x''] \<noteq> [] \<and> is_order_by stable_order_by \<and>
   find_memories stable_order_by example_storage None 0 3 (Some [''x'']) =
     filter (\<lambda>m. list_ex (\<lambda>t. t \<in> set (tags m)) [''x''])
       (List.map_filter row_to_memory
          (take (nat 3) (stable_order_by (filter (matches 0 None) (memories example_storage))))) \<and>
   map mem_id (find_memories stable_order_by example_storage None 0 3 (Some [''x''])) = [''m3'', ''m2''] \<and>
   sorted_wrt precedes (stable_order_by (filter (matches 0 None) (memories example_storage)))"
proof -
  have a: "available example_storage" by code_simp
  have o: "is_order_by stable_order_by"
    by (rule stable_order_by_is_order_by)
  have h: "available example_storage \<and> (0::int) \<le> 3 \<and> [''x''] \<noteq> []"
    using a by simp
  note inst = find_memories_tags_after_limit
      [where st = example_storage and limit = 3 and tgs = "[''x'']" and srt = stable_order_by
         and memory_type = None and min_importance = 0]
  have e: "find_memories stable_order_by example_storage None 0 3 (Some [''x'']) =
     filter (\<lambda>m. list_ex (\<lambda>t. t \<in> set (tags m)) [''x''])
       (List.map_filter row_to_memory
          (take (nat 3) (stable_order_by (filter (matches 0 None) (memories example_storage)))))"
    using inst [THEN conjunct1, rule_format, OF h] .
  have s: "sorted_wrt precedes (stable_order_by (filter (matches 0 None) (memories example_storage)))"
    using inst [THEN conjunct2, THEN conjunct1, rule_format, OF o] by (rule conjunct1)
  have v: "map mem_id (find_memories stable_order_by example_storage None 0 3 (Some [''x''])) = [''m3'', ''m2'']"
    by code_simp
  show ?thesis
    using a o e s v by (intro conjI) simp_all
qed


section \<open>Behaviour tree: execution of composite and action nodes\<close>

lemma run_actions_log:
  assumes "run_actions e cx a d acts lg w = (st, lg', w')" and "\<not> timed_out lg"
  shows "\<exists>k\<le>length acts.
           ran_actions lg' = ran_actions lg @ map (\<lambda>x. (x, execute_action e x cx)) (take k acts) \<and>
           (\<forall>x\<in>set (take (k - 1) acts). execute_action e x cx = Some True) \<and>
           (st = SUCCESS \<longleftrightarrow>
              k = length acts \<and> (\<forall>x\<in>set acts. execute_action e x cx = Some True) \<and> \<not> timed_out lg') \<and>
           (st = SUCCESS \<or> st = FAILURE) \<and>
           dispatched lg' = dispatched lg \<and>
           timeout_checks lg' =
             timeout_checks lg + length (filter (\<lambda>x. execute_action e x cx = Some True) (take k acts))"
  using assms
proof (induction acts arbitrary: lg w)
  case Nil
  then show ?case by auto
next
  case (Cons x rest)
  let ?lg1 = "lg\<lparr>ran_actions := ran_actions lg @ [(x, execute_action e x cx)]\<rparr>"
  show ?case
  proof (cases "execute_action e x cx = Some True")
    case False
    with Cons.prems have "st = FAILURE" "lg' = ?lg1"
      by (auto simp: Let_def split: option.splits bool.splits)
    with False show ?thesis
      by (intro exI [of _ 1]) auto
  next
    case ok: True
    obtain late w1 where t: "is_timed_out e a d w = (late, w1)"
      by (cases "is_timed_out e a d w")
    let ?lg2 = "?lg1\<lparr>timeout_checks := Suc (timeout_checks lg)\<rparr>"
    show ?thesis
    proof (cases late)
      case True
      with Cons.prems ok t have "st = FAILURE" "lg' = ?lg2\<lparr>timed_out := True\<rparr>"
        by (auto simp: Let_def)
      with ok show ?thesis
        by (intro exI [of _ 1]) auto
    next
      case False
      with Cons.prems ok t have r: "run_actions e cx a d rest ?lg2 w1 = (st, lg', w')"
        by (auto simp: Let_def)
      have nt: "\<not> timed_out ?lg2" using Cons.prems(2) by simp
      from Cons.IH [OF r nt] obtain k where k: "k \<le> length rest"
        "ran_actions lg' = ran_actions ?lg2 @ map (\<lambda>x. (x, execute_action e x cx)) (take k rest)"
        "\<forall>x\<in>set (take (k - 1) rest). execute_action e x cx = Some True"
        "st = SUCCESS \<longleftrightarrow>
              k = length rest \<and> (\<forall>x\<in>set rest. execute_action e x cx = Some True) \<and> \<not> timed_out lg'"
        "st = SUCCESS \<or> st = FAILURE"
        "dispatched lg' = dispatched ?lg2"
        "timeout_checks lg' =
             timeout_checks ?lg2 + length (filter (\<lambda>x. execute_action e x cx = Some True) (take k rest))"
        by blast
      have pre: "\<forall>y\<in>set (take (Suc k - 1) (x # rest)). execute_action e y cx = Some True"
        using k(3) ok by (cases k) auto
      show ?thesis
        using k(1,2,4,5,6,7) ok pre
        by (intro exI [of _ "Suc k"]) auto
    qed
  qed
qed

lemma run_children_log:
  assumes "run_children exec e a d cs lg w = (st, lg', w')" and "\<not> timed_out lg"
  shows "\<exists>ds. dispatched lg' = dispatched lg @ ds \<and>
           map fst ds = take (length ds) cs \<and>
           list_all carries_on (butlast (map snd ds)) \<and>
           list_all (\<lambda>(c, s). \<exists>w0. fst (exec c w0) = s) ds \<and>
           (st = SUCCESS \<longleftrightarrow> length ds = length cs \<and> list_all carries_on (map snd ds)) \<and>
           (st = RUNNING \<longleftrightarrow> ds \<noteq> [] \<and> snd (last ds) = RUNNING) \<and>
           (st = FAILURE \<longleftrightarrow> timed_out lg' \<or> (ds \<noteq> [] \<and> snd (last ds) = FAILURE)) \<and>
           st \<noteq> IDLE \<and>
           timeout_checks lg' = timeout_checks lg + length ds + (if timed_out lg' then 1 else 0) \<and>
           ran_actions lg' = ran_actions lg"
  using assms
proof (induction cs arbitrary: lg w)
  case Nil
  then show ?case by (auto simp: carries_on_def)
next
  case (Cons c rest)
  obtain late w1 where t: "is_timed_out e a d w = (late, w1)"
    by (cases "is_timed_out e a d w")
  let ?lg1 = "lg\<lparr>timeout_checks := Suc (timeout_checks lg)\<rparr>"
  show ?case
  proof (cases late)
    case True
    with Cons.prems t have "st = FAILURE" "lg' = ?lg1\<lparr>timed_out := True\<rparr>"
      by (auto simp: Let_def)
    then show ?thesis
      by (intro exI [of _ "[]"]) auto
  next
    case False
    obtain s w2 where x: "exec c w1 = (s, w2)"
      by (cases "exec c w1")
    let ?lg2 = "?lg1\<lparr>dispatched := dispatched lg @ [(c, s)]\<rparr>"
    have res: "\<exists>w0. fst (exec c w0) = s"
      using x by (metis fst_conv)
    show ?thesis
    proof (cases "carries_on s")
      case stop: False
      with Cons.prems t False x have "st = s" "lg' = ?lg2"
        by (auto simp: Let_def carries_on_def split: if_splits)
      with stop res Cons.prems(2) show ?thesis
        by (intro exI [of _ "[(c, s)]"]) (auto simp: carries_on_def)
    next
      case go: True
      with Cons.prems t False x have r: "run_children exec e a d rest ?lg2 w2 = (st, lg', w')"
        by (auto simp: Let_def carries_on_def)
      have nt: "\<not> timed_out ?lg2" using Cons.prems(2) by simp
      from Cons.IH [OF r nt] obtain ds where ds:
        "dispatched lg' = dispatched ?lg2 @ ds"
        "map fst ds = take (length ds) rest"
        "list_all carries_on (butlast (map snd ds))"
        "list_all (\<lambda>(c, s). \<exists>w0. fst (exec c w0) = s) ds"
        "st = SUCCESS \<longleftrightarrow> length ds = length rest \<and> list_all carries_on (map snd ds)"
        "st = RUNNING \<longleftrightarrow> ds \<noteq> [] \<and> snd (last ds) = RUNNING"
        "st = FAILURE \<longleftrightarrow> timed_out lg' \<or> (ds \<noteq> [] \<and> snd (last ds) = FAILURE)"
        "st \<noteq> IDLE"
        "timeout_checks lg' = timeout_checks ?lg2 + length ds + (if timed_out lg' then 1 else 0)"
        "ran_actions lg' = ran_actions ?lg2"
        by blast
      have run: "st = RUNNING \<longleftrightarrow> snd (last ((c, s) # ds)) = RUNNING"
        using ds(6) go by (auto simp: carries_on_def)
      have fail: "st = FAILURE \<longleftrightarrow> timed_out lg' \<or> snd (last ((c, s) # ds)) = FAILURE"
        using ds(7) go by (auto simp: carries_on_def)
      show ?thesis
        using ds(1,2,3,4,5,8,9,10) go res run fail
        by (intro exI [of _ "(c, s) # ds"]) auto
    qed
  qed
qed

lemma sorted_children_mset: "mset (sorted_children cs) = mset cs"
  by (simp add: sorted_children_def)

lemma sorted_children_descending:
  "sorted_wrt (\<lambda>x y. priority (node_defn x) \<ge> priority (node_defn y)) (sorted_children cs)"
proof -
  have "sorted (map (\<lambda>c. priority (node_defn c)) (sort_key (\<lambda>c. priority (node_defn c)) (rev cs)))"
    by (rule sorted_sort_key)
  then have "sorted_wrt (\<lambda>x y. priority (node_defn x) \<le> priority (node_defn y))
               (sort_key (\<lambda>c. priority (node_defn c)) (rev cs))"
    by (simp add: sorted_map)
  then show ?thesis
    by (simp add: sorted_children_def sorted_wrt_rev)
qed

lemma sorted_children_stable:
  "filter (\<lambda>c. priority (node_defn c) = p) (sorted_children cs)
     = filter (\<lambda>c. priority (node_defn c) = p) cs"
proof -
  have "filter (\<lambda>c. priority (node_defn c) = p) (sorted_children cs)
          = rev (filter (\<lambda>c. priority (node_defn c) = p)
                  (sort_key (\<lambda>c. priority (node_defn c)) (rev cs)))"
    by (simp add: sorted_children_def rev_filter)
  also have "\<dots> = rev (filter (\<lambda>c. priority (node_defn c) = p) (rev cs))"
    by (simp only: sort_key_stable)
  also have "\<dots> = filter (\<lambda>c. priority (node_defn c) = p) cs"
    by (simp add: rev_filter [symmetric])
  finally show ?thesis .
qed

lemma action_execute_not_IDLE: "fst (action_execute e cx a d w) \<noteq> IDLE"
proof (cases "can_execute e d cx")
  case False
  then show ?thesis by (simp add: action_execute_def)
next
  case True
  obtain w3 where w3: "action_execute e cx a d w = run_actions e cx a d (actions d) empty_log w3"
    using True by (simp add: action_execute_def Let_def clock_now_def)
  obtain st lg' w' where r: "run_actions e cx a d (actions d) empty_log w3 = (st, lg', w')"
    by (cases "run_actions e cx a d (actions d) empty_log w3")
  from run_actions_log [OF r] have "st = SUCCESS \<or> st = FAILURE"
    by (auto simp: empty_log_def)
  with w3 r show ?thesis by auto
qed

lemma composite_execute_not_IDLE: "fst (composite_execute exec e cx a d cs w) \<noteq> IDLE"
proof (cases "can_execute e d cx")
  case False
  then show ?thesis by (simp add: composite_execute_def)
next
  case True
  obtain w3 where w3: "composite_execute exec e cx a d cs w
                         = run_children exec e a d (sorted_children cs) empty_log w3"
    using True by (simp add: composite_execute_def Let_def clock_now_def)
  obtain st lg' w' where r: "run_children exec e a d (sorted_children cs) empty_log w3 = (st, lg', w')"
    by (cases "run_children exec e a d (sorted_children cs) empty_log w3")
  from run_children_log [OF r] have "st \<noteq> IDLE"
    by (auto simp: empty_log_def)
  with w3 r show ?thesis by auto
qed

lemma execute_not_IDLE: "fst (execute e cx n w) \<noteq> IDLE"
proof (cases n)
  case (Node a c d cs)
  then show ?thesis
    using action_execute_not_IDLE composite_execute_not_IDLE
    by (cases c) (auto simp: condition_execute_def Let_def clock_now_def)
qed

lemma child_execute_not_IDLE: "fst (child_execute e cx n w) \<noteq> IDLE"
  using execute_not_IDLE [of e cx n w]
  by (cases "execute e cx n w") (simp add: child_execute_def)

lemma composite_execute_log:
  assumes "can_execute e d cx" and "composite_execute exec e cx a d cs w = (st, lg, w')"
  shows "map fst (dispatched lg) = take (length (dispatched lg)) (sorted_children cs) \<and>
         list_all carries_on (butlast (map snd (dispatched lg))) \<and>
         list_all (\<lambda>(c, s). \<exists>w0. fst (exec c w0) = s) (dispatched lg) \<and>
         (st = SUCCESS \<longleftrightarrow>
            length (dispatched lg) = length cs \<and> list_all carries_on (map snd (dispatched lg))) \<and>
         (st = RUNNING \<longleftrightarrow> dispatched lg \<noteq> [] \<and> snd (last (dispatched lg)) = RUNNING) \<and>
         (st = FAILURE \<longleftrightarrow>
            timed_out lg \<or> (dispatched lg \<noteq> [] \<and> snd (last (dispatched lg)) = FAILURE)) \<and>
         timeout_checks lg = length (dispatched lg) + (if timed_out lg then 1 else 0) \<and>
         ran_actions lg = []"
proof -
  obtain w3 where "composite_execute exec e cx a d cs w
                     = run_children exec e a d (sorted_children cs) empty_log w3"
    using assms(1) by (simp add: composite_execute_def Let_def clock_now_def)
  with assms(2) have r: "run_children exec e a d (sorted_children cs) empty_log w3 = (st, lg, w')"
    by simp
  have nt: "\<not> timed_out empty_log" by (simp add: empty_log_def)
  have len: "length (sorted_children cs) = length cs"
    by (simp add: sorted_children_def)
  from run_children_log [OF r nt] show ?thesis
    by (auto simp: empty_log_def len)
qed

subsection \<open>The timeout and the clock\<close>

text \<open>
  \<open>is_timed_out\<close> reads the clock once when the node has a start time, and answers whether
  the reading is more than \<open>timeout_seconds\<close> after the start time.
\<close>

lemma is_timed_out_iff:
  "fst (is_timed_out e a d w) \<longleftrightarrow>
     (\<exists>t0. w_start_time w a = Some t0 \<and> clock e (w_ticks w) - t0 > seconds (timeout_seconds d))"
  by (simp add: is_timed_out_def clock_now_def split: option.splits)

lemma is_timed_out_late:
  assumes "w_start_time w a = Some t0"
    and "clock e (w_ticks w) - t0 > seconds (timeout_seconds d)"
  shows "is_timed_out e a d w = (True, w\<lparr>w_ticks := Suc (w_ticks w)\<rparr>)"
  using assms by (simp add: is_timed_out_def clock_now_def)

lemma is_timed_out_in_time:
  assumes "w_start_time w a = Some t0"
    and "clock e (w_ticks w) - t0 \<le> seconds (timeout_seconds d)"
  shows "is_timed_out e a d w = (False, w\<lparr>w_ticks := Suc (w_ticks w)\<rparr>)"
  using assms by (simp add: is_timed_out_def clock_now_def)

lemma run_children_late:
  assumes "w_start_time w0 a = Some t0"
    and "clock e (w_ticks w0) - t0 > seconds (timeout_seconds d)"
  shows "run_children exec e a d (child # rest) lg0 w0 =
           (FAILURE, lg0\<lparr>timeout_checks := Suc (timeout_checks lg0), timed_out := True\<rparr>,
            set_status a FAILURE (w0\<lparr>w_ticks := Suc (w_ticks w0)\<rparr>))"
  by (simp add: is_timed_out_late [OF assms] Let_def)

lemma run_children_grows:
  "run_children exec e a d cs lg w = (st, lg', w') \<Longrightarrow> \<exists>ds. dispatched lg' = dispatched lg @ ds"
proof (induction cs arbitrary: lg w)
  case Nil
  then show ?case by auto
next
  case (Cons c rest)
  obtain late w1 where t: "is_timed_out e a d w = (late, w1)"
    by (cases "is_timed_out e a d w")
  obtain s w2 where x: "exec c w1 = (s, w2)"
    by (cases "exec c w1")
  let ?lg2 = "lg\<lparr>timeout_checks := Suc (timeout_checks lg), dispatched := dispatched lg @ [(c, s)]\<rparr>"
  show ?case
  proof (cases "late \<or> s = FAILURE \<or> s = RUNNING")
    case True
    with Cons.prems t x show ?thesis
      by (auto simp: Let_def split: if_splits)
  next
    case False
    with Cons.prems t x have "run_children exec e a d rest ?lg2 w2 = (st, lg', w')"
      by (auto simp: Let_def)
    from Cons.IH [OF this] show ?thesis by auto
  qed
qed

lemma run_children_in_time:
  assumes "w_start_time w0 a = Some t0"
    and "clock e (w_ticks w0) - t0 \<le> seconds (timeout_seconds d)"
  shows "take (Suc (length (dispatched lg0)))
           (dispatched (fst (snd (run_children exec e a d (child # rest) lg0 w0)))) =
           dispatched lg0 @ [(child, fst (exec child (w0\<lparr>w_ticks := Suc (w_ticks w0)\<rparr>)))]"
proof -
  let ?w1 = "w0\<lparr>w_ticks := Suc (w_ticks w0)\<rparr>"
  have t: "is_timed_out e a d w0 = (False, ?w1)"
    using assms by (rule is_timed_out_in_time)
  obtain st lg w' where r: "run_children exec e a d (child # rest) lg0 w0 = (st, lg, w')"
    by (cases "run_children exec e a d (child # rest) lg0 w0")
  obtain s w2 where x: "exec child ?w1 = (s, w2)"
    by (cases "exec child ?w1")
  let ?lg2 = "lg0\<lparr>timeout_checks := Suc (timeout_checks lg0),
                  dispatched := dispatched lg0 @ [(child, s)]\<rparr>"
  have "\<exists>ds. dispatched lg = dispatched ?lg2 @ ds"
  proof (cases "s = FAILURE \<or> s = RUNNING")
    case True
    with r t x have "lg = ?lg2" by (auto simp: Let_def split: if_splits)
    then show ?thesis by simp
  next
    case False
    with r t x have "run_children exec e a d rest ?lg2 w2 = (st, lg, w')"
      by (auto simp: Let_def)
    then show ?thesis by (rule run_children_grows)
  qed
  then show ?thesis using r x by auto
qed

lemma sorted_children_not_Nil: "cs \<noteq> [] \<Longrightarrow> sorted_children cs \<noteq> []"
proof -
  assume "cs \<noteq> []"
  moreover have "set (sorted_children cs) = set cs" by simp
  ultimately show ?thesis by (metis set_empty)
qed

lemma composite_execute_first_check:
  assumes "can_execute e d cx" and "cs \<noteq> []"
  shows "(clock e (Suc (w_ticks w)) - clock e (w_ticks w) > seconds (timeout_seconds d) \<longrightarrow>
            (case composite_execute exec e cx a d cs w of
               (st, lg, w') \<Rightarrow>
                 st = FAILURE \<and> dispatched lg = [] \<and> timed_out lg \<and> timeout_checks lg = 1 \<and>
                 w_status w' a = FAILURE)) \<and>
         (clock e (Suc (w_ticks w)) - clock e (w_ticks w) \<le> seconds (timeout_seconds d) \<longrightarrow>
            (case composite_execute exec e cx a d cs w of
               (st, lg, w') \<Rightarrow>
                 dispatched lg \<noteq> [] \<and> fst (hd (dispatched lg)) = hd (sorted_children cs)))"
proof -
  let ?t0 = "clock e (w_ticks w)"
  let ?w3 = "set_start_time a ?t0 ((set_status a RUNNING w)\<lparr>w_ticks := Suc (w_ticks w)\<rparr>)"
  obtain st lg w' where c: "composite_execute exec e cx a d cs w = (st, lg, w')"
    by (cases "composite_execute exec e cx a d cs w")
  have "composite_execute exec e cx a d cs w
          = run_children exec e a d (sorted_children cs) empty_log ?w3"
    using assms(1) by (simp add: composite_execute_def Let_def clock_now_def set_status_def)
  with c have r: "run_children exec e a d (sorted_children cs) empty_log ?w3 = (st, lg, w')"
    by simp
  from assms(2) obtain child rest where cs: "sorted_children cs = child # rest"
    using sorted_children_not_Nil [of cs] by (cases "sorted_children cs") auto
  have s: "w_start_time ?w3 a = Some ?t0"
    by (simp add: set_start_time_def)
  have tk: "w_ticks ?w3 = Suc (w_ticks w)"
    by (simp add: set_start_time_def set_status_def)
  show ?thesis
    unfolding c prod.case
  proof (intro conjI impI)
    assume "clock e (Suc (w_ticks w)) - ?t0 > seconds (timeout_seconds d)"
    then have "clock e (w_ticks ?w3) - ?t0 > seconds (timeout_seconds d)"
      by (simp only: tk)
    from run_children_late [OF s this, where exec = exec and child = child and rest = rest and ?lg0.0 = empty_log] r
    show "st = FAILURE" "dispatched lg = []" "timed_out lg" "timeout_checks lg = 1"
      "w_status w' a = FAILURE"
      by (auto simp: cs empty_log_def set_status_def)
  next
    assume "clock e (Suc (w_ticks w)) - ?t0 \<le> seconds (timeout_seconds d)"
    then have "clock e (w_ticks ?w3) - ?t0 \<le> seconds (timeout_seconds d)"
      by (simp only: tk)
    from run_children_in_time [OF s this, where exec = exec and child = child and rest = rest and ?lg0.0 = empty_log]
    have "take (Suc 0) (dispatched lg)
            = [(child, fst (exec child (?w3\<lparr>w_ticks := Suc (w_ticks ?w3)\<rparr>)))]"
      using r by (simp add: cs empty_log_def)
    then show "dispatched lg \<noteq> []" "fst (hd (dispatched lg)) = hd (sorted_children cs)"
      by (cases "dispatched lg"; simp add: cs)+
  qed
qed

text \<open>
  Claim C5. A composite node (the root is one) executes by \<open>composite_execute\<close> with
  its children's \<open>execute\<close>. If its conditions do not all hold it returns \<open>FAILURE\<close>,
  dispatches no child and leaves the world as it was. Otherwise it goes through its
  children sorted by descending priority, equal priorities in their original order: the
  children dispatched are an initial part of that sorted list, each recorded with the
  status its \<open>execute\<close> returned; every status but the last let the loop go on; the result
  is \<open>RUNNING\<close> exactly when the last child dispatched returned \<open>RUNNING\<close>, \<open>FAILURE\<close>
  exactly when it returned \<open>FAILURE\<close> or the timeout struck, and \<open>SUCCESS\<close> exactly when
  every child was dispatched and none returned \<open>FAILURE\<close> or \<open>RUNNING\<close> (a node of this
  program never returns \<open>IDLE\<close>, so each of them succeeded). \<open>is_timed_out\<close> is asked once
  before each dispatch, and once more when the loop stops on a timeout.

  The timeout is the clock's: \<open>is_timed_out\<close> holds exactly when the node has a start time
  and the clock now reads more than \<open>timeout_seconds\<close> after it. At any turn of the loop,
  with the node started at \<open>t0\<close>: if the clock reads more than \<open>timeout_seconds\<close> after
  \<open>t0\<close>, the loop stops with \<open>FAILURE\<close>, the node's status is \<open>FAILURE\<close>, and the child
  at hand is not dispatched (the log of dispatches is as it was); if it reads at most
  \<open>timeout_seconds\<close> after \<open>t0\<close>, the child at hand is dispatched next, in the world left
  by the clock reading. For the whole node, whose start time is the clock reading taken on
  entry: when the conditions hold and there is a child, a second reading more than
  \<open>timeout_seconds\<close> after the first gives \<open>FAILURE\<close> with no child dispatched, and a
  second reading at most \<open>timeout_seconds\<close> after the first has the child of highest
  priority dispatched.
\<close>

theorem composite_runs_children_by_priority:
  "execute e cx (Node a CompositeState d cs) w
     = composite_execute (child_execute e cx) e cx a d cs w \<and>
   execute e cx (Node a RootState d cs) w
     = composite_execute (child_execute e cx) e cx a d cs w \<and>
   (\<not> can_execute e d cx \<longrightarrow> composite_execute exec e cx a d cs w = (FAILURE, empty_log, w)) \<and>
   mset (sorted_children cs) = mset cs \<and>
   sorted_wrt (\<lambda>x y. priority (node_defn x) \<ge> priority (node_defn y)) (sorted_children cs) \<and>
   filter (\<lambda>c. priority (node_defn c) = p) (sorted_children cs)
     = filter (\<lambda>c. priority (node_defn c) = p) cs \<and>
   (can_execute e d cx \<longrightarrow>
      (case composite_execute exec e cx a d cs w of
         (st, lg, w') \<Rightarrow>
           map fst (dispatched lg) = take (length (dispatched lg)) (sorted_children cs) \<and>
           list_all carries_on (butlast (map snd (dispatched lg))) \<and>
           list_all (\<lambda>(c, s). \<exists>w0. fst (exec c w0) = s) (dispatched lg) \<and>
           (st = SUCCESS \<longleftrightarrow>
              length (dispatched lg) = length cs \<and> list_all carries_on (map snd (dispatched lg))) \<and>
           (st = RUNNING \<longleftrightarrow> dispatched lg \<noteq> [] \<and> snd (last (dispatched lg)) = RUNNING) \<and>
           (st = FAILURE \<longleftrightarrow>
              timed_out lg \<or> (dispatched lg \<noteq> [] \<and> snd (last (dispatched lg)) = FAILURE)) \<and>
           timeout_checks lg = length (dispatched lg) + (if timed_out lg then 1 else 0) \<and>
           ran_actions lg = [])) \<and>
   fst (child_execute e cx n w) \<noteq> IDLE \<and>
   (fst (is_timed_out e a d w0) \<longleftrightarrow>
      (\<exists>t. w_start_time w0 a = Some t \<and>
           clock e (w_ticks w0) - t > seconds (timeout_seconds d))) \<and>
   (w_start_time w0 a = Some t0 \<and> clock e (w_ticks w0) - t0 > seconds (timeout_seconds d) \<longrightarrow>
      run_children exec e a d (child # rest) lg0 w0 =
        (FAILURE, lg0\<lparr>timeout_checks := Suc (timeout_checks lg0), timed_out := True\<rparr>,
         set_status a FAILURE (w0\<lparr>w_ticks := Suc (w_ticks w0)\<rparr>))) \<and>
   (w_start_time w0 a = Some t0 \<and> clock e (w_ticks w0) - t0 \<le> seconds (timeout_seconds d) \<longrightarrow>
      take (Suc (length (dispatched lg0)))
        (dispatched (fst (snd (run_children exec e a d (child # rest) lg0 w0)))) =
        dispatched lg0 @ [(child, fst (exec child (w0\<lparr>w_ticks := Suc (w_ticks w0)\<rparr>)))]) \<and>
   (can_execute e d cx \<and> cs \<noteq> [] \<and>
    clock e (Suc (w_ticks w)) - clock e (w_ticks w) > seconds (timeout_seconds d) \<longrightarrow>
      (case composite_execute exec e cx a d cs w of
         (st, lg, w') \<Rightarrow>
           st = FAILURE \<and> dispatched lg = [] \<and> timed_out lg \<and> timeout_checks lg = 1 \<and>
           w_status w' a = FAILURE)) \<and>
   (can_execute e d cx \<and> cs \<noteq> [] \<and>
    clock e (Suc (w_ticks w)) - clock e (w_ticks w) \<le> seconds (timeout_seconds d) \<longrightarrow>
      (case composite_execute exec e cx a d cs w of
         (st, lg, w') \<Rightarrow>
           dispatched lg \<noteq> [] \<and> fst (hd (dispatched lg)) = hd (sorted_children cs)))"
proof (intro conjI impI)
  have ce: "(\<lambda>child w'. case execute e cx child w' of (s, lg, w'') \<Rightarrow> (s, w'')) = child_execute e cx"
    by (intro ext) (simp add: child_execute_def)
  show "execute e cx (Node a CompositeState d cs) w
          = composite_execute (child_execute e cx) e cx a d cs w"
    by (simp add: ce)
  show "execute e cx (Node a RootState d cs) w
          = composite_execute (child_execute e cx) e cx a d cs w"
    by (simp add: ce)
next
  assume "\<not> can_execute e d cx"
  then show "composite_execute exec e cx a d cs w = (FAILURE, empty_log, w)"
    by (simp add: composite_execute_def)
next
  show "mset (sorted_children cs) = mset cs"
    by (rule sorted_children_mset)
  show "sorted_wrt (\<lambda>x y. priority (node_defn x) \<ge> priority (node_defn y)) (sorted_children cs)"
    by (rule sorted_children_descending)
  show "filter (\<lambda>c. priority (node_defn c) = p) (sorted_children cs)
          = filter (\<lambda>c. priority (node_defn c) = p) cs"
    by (rule sorted_children_stable)
  show "fst (child_execute e cx n w) \<noteq> IDLE"
    by (rule child_execute_not_IDLE)
  show "fst (is_timed_out e a d w0) \<longleftrightarrow>
      (\<exists>t. w_start_time w0 a = Some t \<and>
           clock e (w_ticks w0) - t > seconds (timeout_seconds d))"
    by (rule is_timed_out_iff)
next
  assume c: "can_execute e d cx"
  obtain st lg w' where r: "composite_execute exec e cx a d cs w = (st, lg, w')"
    by (cases "composite_execute exec e cx a d cs w")
  from composite_execute_log [OF c r] show
    "case composite_execute exec e cx a d cs w of
         (st, lg, w') \<Rightarrow>
           map fst (dispatched lg) = take (length (dispatched lg)) (sorted_children cs) \<and>
           list_all carries_on (butlast (map snd (dispatched lg))) \<and>
           list_all (\<lambda>(c, s). \<exists>w0. fst (exec c w0) = s) (dispatched lg) \<and>
           (st = SUCCESS \<longleftrightarrow>
              length (dispatched lg) = length cs \<and> list_all carries_on (map snd (dispatched lg))) \<and>
           (st = RUNNING \<longleftrightarrow> dispatched lg \<noteq> [] \<and> snd (last (dispatched lg)) = RUNNING) \<and>
           (st = FAILURE \<longleftrightarrow>
              timed_out lg \<or> (dispatched lg \<noteq> [] \<and> snd (last (dispatched lg)) = FAILURE)) \<and>
           timeout_checks lg = length (dispatched lg) + (if timed_out lg then 1 else 0) \<and>
           ran_actions lg = []"
    by (simp add: r)
next
  assume h: "w_start_time w0 a = Some t0 \<and>
             clock e (w_ticks w0) - t0 > seconds (timeout_seconds d)"
  from run_children_late [OF conjunct1 [OF h] conjunct2 [OF h]]
  show "run_children exec e a d (child # rest) lg0 w0 =
        (FAILURE, lg0\<lparr>timeout_checks := Suc (timeout_checks lg0), timed_out := True\<rparr>,
         set_status a FAILURE (w0\<lparr>w_ticks := Suc (w_ticks w0)\<rparr>))" .
next
  assume h: "w_start_time w0 a = Some t0 \<and>
             clock e (w_ticks w0) - t0 \<le> seconds (timeout_seconds d)"
  from run_children_in_time [OF conjunct1 [OF h] conjunct2 [OF h]]
  show "take (Suc (length (dispatched lg0)))
        (dispatched (fst (snd (run_children exec e a d (child # rest) lg0 w0)))) =
        dispatched lg0 @ [(child, fst (exec child (w0\<lparr>w_ticks := Suc (w_ticks w0)\<rparr>)))]" .
next
  assume h: "can_execute e d cx \<and> cs \<noteq> [] \<and>
    clock e (Suc (w_ticks w)) - clock e (w_ticks w) > seconds (timeout_seconds d)"
  then have c: "can_execute e d cx" and n: "cs \<noteq> []"
    and l: "clock e (Suc (w_ticks w)) - clock e (w_ticks w) > seconds (timeout_seconds d)"
    by simp_all
  from composite_execute_first_check [OF c n, where w = w and exec = exec and a = a, THEN conjunct1, rule_format, OF l]
  show "case composite_execute exec e cx a d cs w of
         (st, lg, w') \<Rightarrow>
           st = FAILURE \<and> dispatched lg = [] \<and> timed_out lg \<and> timeout_checks lg = 1 \<and>
           w_status w' a = FAILURE" .
next
  assume h: "can_execute e d cx \<and> cs \<noteq> [] \<and>
    clock e (Suc (w_ticks w)) - clock e (w_ticks w) \<le> seconds (timeout_seconds d)"
  then have c: "can_execute e d cx" and n: "cs \<noteq> []"
    and l: "clock e (Suc (w_ticks w)) - clock e (w_ticks w) \<le> seconds (timeout_seconds d)"
    by simp_all
  from composite_execute_first_check [OF c n, where w = w and exec = exec and a = a, THEN conjunct2, rule_format, OF l]
  show "case composite_execute exec e cx a d cs w of
         (st, lg, w') \<Rightarrow>
           dispatched lg \<noteq> [] \<and> fst (hd (dispatched lg)) = hd (sorted_children cs)" .
qed

theorem composite_runs_children_by_priority_witness:
  "can_execute example_env example_root_definition (x_is (- 1)) \<and>
   fst (execute example_env (x_is (- 1)) root_node fresh_world) = FAILURE \<and>
   map fst (dispatched (fst (snd (execute example_env (x_is (- 1)) root_node fresh_world))))
     = take (length (dispatched (fst (snd (execute example_env (x_is (- 1)) root_node fresh_world)))))
         (sorted_children [lo_node, hi_node]) \<and>
   map (\<lambda>(c, s). (ref c, s))
     (dispatched (fst (snd (execute example_env (x_is (- 1)) root_node fresh_world))))
     = [(2, SUCCESS), (3, FAILURE)] \<and>
   \<not> can_execute example_env guarded_definition (x_is (- 1)) \<and>
   execute example_env (x_is (- 1)) guarded_node fresh_world = (FAILURE, empty_log, fresh_world) \<and>
   can_execute jump_env example_root_definition (x_is 5) \<and>
   clock jump_env (Suc (w_ticks fresh_world)) - clock jump_env (w_ticks fresh_world)
     > seconds (timeout_seconds example_root_definition) \<and>
   fst (execute jump_env (x_is 5) root_node fresh_world) = FAILURE \<and>
   dispatched (fst (snd (execute jump_env (x_is 5) root_node fresh_world))) = [] \<and>
   timed_out (fst (snd (execute jump_env (x_is 5) root_node fresh_world))) \<and>
   clock example_env (Suc (w_ticks fresh_world)) - clock example_env (w_ticks fresh_world)
     \<le> seconds (timeout_seconds example_root_definition) \<and>
   fst (hd (dispatched (fst (snd (execute example_env (x_is (- 1)) root_node fresh_world)))))
     = hd (sorted_children [lo_node, hi_node]) \<and>
   w_start_time (started_world 0 0 1) 0 = Some 0 \<and>
   clock jump_env (w_ticks (started_world 0 0 1)) - 0
     > seconds (timeout_seconds example_root_definition) \<and>
   fst (is_timed_out jump_env 0 example_root_definition (started_world 0 0 1)) \<and>
   fst (run_children (child_execute jump_env (x_is 5)) jump_env 0 example_root_definition
          [hi_node, lo_node] empty_log (started_world 0 0 1)) = FAILURE \<and>
   dispatched (fst (snd (run_children (child_execute jump_env (x_is 5)) jump_env 0
          example_root_definition [hi_node, lo_node] empty_log (started_world 0 0 1)))) = [] \<and>
   w_start_time (started_world 0 (seconds 100) 0) 0 = Some (seconds 100) \<and>
   clock example_env (w_ticks (started_world 0 (seconds 100) 0)) - seconds 100
     \<le> seconds (timeout_seconds example_root_definition) \<and>
   take (Suc 0) (dispatched (fst (snd (run_children (child_execute example_env (x_is 5)) example_env 0
          example_root_definition [hi_node, lo_node] empty_log (started_world 0 (seconds 100) 0)))))
     = [(hi_node, SUCCESS)]"
proof -
  have c: "can_execute example_env example_root_definition (x_is (- 1))"
    by code_simp
  have f: "fst (execute example_env (x_is (- 1)) root_node fresh_world) = FAILURE"
    by code_simp
  have v: "map (\<lambda>(c, s). (ref c, s))
     (dispatched (fst (snd (execute example_env (x_is (- 1)) root_node fresh_world))))
     = [(2, SUCCESS), (3, FAILURE)]"
    by code_simp
  have g: "\<not> can_execute example_env guarded_definition (x_is (- 1))"
    by code_simp
  note root = composite_runs_children_by_priority
      [where e = example_env and cx = "x_is (- 1)" and a = 0 and d = example_root_definition
         and cs = "[lo_node, hi_node]" and w = fresh_world
         and exec = "child_execute example_env (x_is (- 1))"]
  note guarded = composite_runs_children_by_priority
      [where e = example_env and cx = "x_is (- 1)" and a = 4 and d = guarded_definition
         and cs = "[hi_node]" and w = fresh_world
         and exec = "child_execute example_env (x_is (- 1))"]
  from root have r: "execute example_env (x_is (- 1)) root_node fresh_world
      = composite_execute (child_execute example_env (x_is (- 1))) example_env (x_is (- 1)) 0
          example_root_definition [lo_node, hi_node] fresh_world"
    unfolding root_node_def by blast
  from root c have "case composite_execute (child_execute example_env (x_is (- 1))) example_env
          (x_is (- 1)) 0 example_root_definition [lo_node, hi_node] fresh_world of
      (st, lg, w') \<Rightarrow>
        map fst (dispatched lg) = take (length (dispatched lg)) (sorted_children [lo_node, hi_node])"
    by (auto split: prod.splits)
  then have o: "map fst (dispatched (fst (snd (execute example_env (x_is (- 1)) root_node fresh_world))))
     = take (length (dispatched (fst (snd (execute example_env (x_is (- 1)) root_node fresh_world)))))
         (sorted_children [lo_node, hi_node])"
    unfolding r by (simp split: prod.splits)
  from guarded have "execute example_env (x_is (- 1)) guarded_node fresh_world
      = composite_execute (child_execute example_env (x_is (- 1))) example_env (x_is (- 1)) 4
          guarded_definition [hi_node] fresh_world"
    unfolding guarded_node_def by blast
  moreover from guarded g have
    "composite_execute (child_execute example_env (x_is (- 1))) example_env (x_is (- 1)) 4
          guarded_definition [hi_node] fresh_world = (FAILURE, empty_log, fresh_world)"
    by blast
  ultimately have n: "execute example_env (x_is (- 1)) guarded_node fresh_world
                        = (FAILURE, empty_log, fresh_world)"
    by simp
  have ne: "[lo_node, hi_node] \<noteq> []"
    by simp
  have jc: "can_execute jump_env example_root_definition (x_is 5)"
    by code_simp
  have jl: "clock jump_env (Suc (w_ticks fresh_world)) - clock jump_env (w_ticks fresh_world)
     > seconds (timeout_seconds example_root_definition)"
    by code_simp
  note jump = composite_runs_children_by_priority
      [where e = jump_env and cx = "x_is 5" and a = 0 and d = example_root_definition
         and cs = "[lo_node, hi_node]" and w = fresh_world
         and exec = "child_execute jump_env (x_is 5)"]
  from jump have jr: "execute jump_env (x_is 5) root_node fresh_world
      = composite_execute (child_execute jump_env (x_is 5)) jump_env (x_is 5) 0
          example_root_definition [lo_node, hi_node] fresh_world"
    unfolding root_node_def by blast
  note jump_late = jump [THEN conjunct2, THEN conjunct2, THEN conjunct2, THEN conjunct2,
      THEN conjunct2, THEN conjunct2, THEN conjunct2, THEN conjunct2, THEN conjunct2,
      THEN conjunct2, THEN conjunct2, THEN conjunct1]
  from jump_late [THEN mp, OF conjI [OF jc conjI [OF ne jl]]]
  have "case composite_execute (child_execute jump_env (x_is 5)) jump_env
          (x_is 5) 0 example_root_definition [lo_node, hi_node] fresh_world of
      (st, lg, w') \<Rightarrow>
        st = FAILURE \<and> dispatched lg = [] \<and> timed_out lg \<and> timeout_checks lg = 1 \<and>
        w_status w' 0 = FAILURE" .
  then have jf: "fst (execute jump_env (x_is 5) root_node fresh_world) = FAILURE"
    and jd: "dispatched (fst (snd (execute jump_env (x_is 5) root_node fresh_world))) = []"
    and jt: "timed_out (fst (snd (execute jump_env (x_is 5) root_node fresh_world)))"
    unfolding jr by (simp_all split: prod.splits)
  have el: "clock example_env (Suc (w_ticks fresh_world)) - clock example_env (w_ticks fresh_world)
     \<le> seconds (timeout_seconds example_root_definition)"
    by code_simp
  note root_in_time = root [THEN conjunct2, THEN conjunct2, THEN conjunct2, THEN conjunct2,
      THEN conjunct2, THEN conjunct2, THEN conjunct2, THEN conjunct2, THEN conjunct2,
      THEN conjunct2, THEN conjunct2, THEN conjunct2]
  from root_in_time [THEN mp, OF conjI [OF c conjI [OF ne el]]]
  have "case composite_execute (child_execute example_env (x_is (- 1))) example_env
          (x_is (- 1)) 0 example_root_definition [lo_node, hi_node] fresh_world of
      (st, lg, w') \<Rightarrow>
        dispatched lg \<noteq> [] \<and> fst (hd (dispatched lg)) = hd (sorted_children [lo_node, hi_node])" .
  then have eh: "fst (hd (dispatched (fst (snd (execute example_env (x_is (- 1)) root_node fresh_world)))))
     = hd (sorted_children [lo_node, hi_node])"
    unfolding r by (simp split: prod.splits)
  have ls: "w_start_time (started_world 0 0 1) 0 = Some 0"
    by code_simp
  have ll: "clock jump_env (w_ticks (started_world 0 0 1)) - 0
     > seconds (timeout_seconds example_root_definition)"
    by code_simp
  note late = composite_runs_children_by_priority
      [where e = jump_env and a = 0 and d = example_root_definition
         and ?w0.0 = "started_world 0 0 1" and ?t0.0 = 0 and ?lg0.0 = empty_log
         and child = hi_node and rest = "[lo_node]"
         and exec = "child_execute jump_env (x_is 5)"]
  from late ls ll have lt: "fst (is_timed_out jump_env 0 example_root_definition (started_world 0 0 1))"
    by blast
  from late ls ll have
    "run_children (child_execute jump_env (x_is 5)) jump_env 0 example_root_definition
       [hi_node, lo_node] empty_log (started_world 0 0 1) =
       (FAILURE, empty_log\<lparr>timeout_checks := Suc (timeout_checks empty_log), timed_out := True\<rparr>,
        set_status 0 FAILURE ((started_world 0 0 1)\<lparr>w_ticks := Suc (w_ticks (started_world 0 0 1))\<rparr>))"
    by blast
  then have lf: "fst (run_children (child_execute jump_env (x_is 5)) jump_env 0 example_root_definition
          [hi_node, lo_node] empty_log (started_world 0 0 1)) = FAILURE"
    and ld: "dispatched (fst (snd (run_children (child_execute jump_env (x_is 5)) jump_env 0
          example_root_definition [hi_node, lo_node] empty_log (started_world 0 0 1)))) = []"
    by (simp_all add: empty_log_def)
  have ts: "w_start_time (started_world 0 (seconds 100) 0) 0 = Some (seconds 100)"
    by code_simp
  have tl: "clock example_env (w_ticks (started_world 0 (seconds 100) 0)) - seconds 100
     \<le> seconds (timeout_seconds example_root_definition)"
    by code_simp
  note in_time = composite_runs_children_by_priority
      [where e = example_env and a = 0 and d = example_root_definition
         and ?w0.0 = "started_world 0 (seconds 100) 0" and ?t0.0 = "seconds 100"
         and ?lg0.0 = empty_log and child = hi_node and rest = "[lo_node]"
         and exec = "child_execute example_env (x_is 5)"]
  have hs: "fst (child_execute example_env (x_is 5) hi_node
              ((started_world 0 (seconds 100) 0)
                 \<lparr>w_ticks := Suc (w_ticks (started_world 0 (seconds 100) 0))\<rparr>)) = SUCCESS"
    by code_simp
  from in_time ts tl have
    "take (Suc (length (dispatched empty_log)))
        (dispatched (fst (snd (run_children (child_execute example_env (x_is 5)) example_env 0
           example_root_definition [hi_node, lo_node] empty_log (started_world 0 (seconds 100) 0))))) =
        dispatched empty_log @
          [(hi_node, fst (child_execute example_env (x_is 5) hi_node
              ((started_world 0 (seconds 100) 0)
                 \<lparr>w_ticks := Suc (w_ticks (started_world 0 (seconds 100) 0))\<rparr>)))]"
    by blast
  then have tt: "take (Suc 0) (dispatched (fst (snd (run_children (child_execute example_env (x_is 5))
          example_env 0 example_root_definition [hi_node, lo_node] empty_log
          (started_world 0 (seconds 100) 0)))))
     = [(hi_node, SUCCESS)]"
    unfolding hs by (simp add: empty_log_def)
  show ?thesis
    using c f o v g n jc jl jf jd jt el eh ls ll lt lf ld ts tl tt by (intro conjI)
qed

lemma all_conditions_list_all:
  "all_conditions e cs cx = list_all (\<lambda>c. evaluate_condition e c cx) cs"
  by (induction cs) auto

lemma action_execute_log:
  assumes "can_execute e d cx" and "action_execute e cx a d w = (st, lg, w')"
  shows "(\<exists>k\<le>length (actions d).
            ran_actions lg = map (\<lambda>x. (x, execute_action e x cx)) (take k (actions d))) \<and>
         list_all (\<lambda>r. r = Some True) (butlast (map snd (ran_actions lg))) \<and>
         (st = SUCCESS \<longleftrightarrow>
            length (ran_actions lg) = length (actions d) \<and>
            list_all (\<lambda>r. r = Some True) (map snd (ran_actions lg)) \<and> \<not> timed_out lg) \<and>
         (st = SUCCESS \<or> st = FAILURE) \<and>
         timeout_checks lg = length (filter (\<lambda>r. r = Some True) (map snd (ran_actions lg))) \<and>
         dispatched lg = []"
proof -
  obtain w3 where "action_execute e cx a d w = run_actions e cx a d (actions d) empty_log w3"
    using assms(1) by (simp add: action_execute_def Let_def clock_now_def)
  with assms(2) have r: "run_actions e cx a d (actions d) empty_log w3 = (st, lg, w')"
    by simp
  have nt: "\<not> timed_out empty_log" by (simp add: empty_log_def)
  from run_actions_log [OF r nt] obtain k where k: "k \<le> length (actions d)"
    "ran_actions lg = map (\<lambda>x. (x, execute_action e x cx)) (take k (actions d))"
    "\<forall>x\<in>set (take (k - 1) (actions d)). execute_action e x cx = Some True"
    "st = SUCCESS \<longleftrightarrow>
       k = length (actions d) \<and> (\<forall>x\<in>set (actions d). execute_action e x cx = Some True) \<and> \<not> timed_out lg"
    "st = SUCCESS \<or> st = FAILURE"
    "dispatched lg = []"
    "timeout_checks lg = length (filter (\<lambda>x. execute_action e x cx = Some True) (take k (actions d)))"
    by (auto simp: empty_log_def)
  have snd_ran: "map snd (ran_actions lg) = map (\<lambda>x. execute_action e x cx) (take k (actions d))"
    by (simp add: k(2) comp_def)
  have len: "length (ran_actions lg) = k"
    using k(1,2) by simp
  have bl: "list_all (\<lambda>r. r = Some True) (butlast (map snd (ran_actions lg)))"
  proof -
    have "butlast (map snd (ran_actions lg))
            = map (\<lambda>x. execute_action e x cx) (take (k - 1) (actions d))"
      using k(1) by (simp add: snd_ran map_butlast [symmetric] butlast_take)
    with k(3) show ?thesis by (simp add: list_all_iff)
  qed
  have all: "list_all (\<lambda>r. r = Some True) (map snd (ran_actions lg)) \<longleftrightarrow>
               (\<forall>x\<in>set (take k (actions d)). execute_action e x cx = Some True)"
    by (simp add: snd_ran list_all_iff)
  have suc: "st = SUCCESS \<longleftrightarrow>
            length (ran_actions lg) = length (actions d) \<and>
            list_all (\<lambda>r. r = Some True) (map snd (ran_actions lg)) \<and> \<not> timed_out lg"
    using k(4) len all by auto
  have chk: "timeout_checks lg = length (filter (\<lambda>r. r = Some True) (map snd (ran_actions lg)))"
    by (simp add: k(7) snd_ran filter_map comp_def)
  show ?thesis
    using k(1,2,5,6) bl suc chk by blast
qed

lemma run_actions_clock:
  assumes "run_actions e cx a d acts lg w = (st, lg', w')" and "\<not> timed_out lg"
    and "w_start_time w a = Some t0"
  shows "\<exists>k\<le>length acts.
           length (ran_actions lg') = length (ran_actions lg) + k \<and>
           (\<forall>j. Suc j < k \<longrightarrow> clock e (w_ticks w + j) - t0 \<le> seconds (timeout_seconds d)) \<and>
           (timed_out lg' \<longleftrightarrow>
              (\<exists>j. k = Suc j \<and> execute_action e (acts ! j) cx = Some True \<and>
                   clock e (w_ticks w + j) - t0 > seconds (timeout_seconds d))) \<and>
           (st = SUCCESS \<longleftrightarrow>
              (\<forall>x\<in>set acts. execute_action e x cx = Some True) \<and>
              (\<forall>j<length acts. clock e (w_ticks w + j) - t0 \<le> seconds (timeout_seconds d)))"
  using assms
proof (induction acts arbitrary: lg w)
  case Nil
  then show ?case by auto
next
  case (Cons x rest)
  let ?lg1 = "lg\<lparr>ran_actions := ran_actions lg @ [(x, execute_action e x cx)]\<rparr>"
  show ?case
  proof (cases "execute_action e x cx = Some True")
    case False
    with Cons.prems have "st = FAILURE" "lg' = ?lg1"
      by (auto simp: Let_def split: option.splits bool.splits)
    with False Cons.prems(2) show ?thesis
      by (intro exI [of _ 1]) auto
  next
    case ok: True
    let ?late = "clock e (w_ticks w) - t0 > seconds (timeout_seconds d)"
    let ?w1 = "w\<lparr>w_ticks := Suc (w_ticks w)\<rparr>"
    have t: "is_timed_out e a d w = (?late, ?w1)"
      using Cons.prems(3) by (simp add: is_timed_out_def clock_now_def)
    let ?lg2 = "?lg1\<lparr>timeout_checks := Suc (timeout_checks lg)\<rparr>"
    show ?thesis
    proof (cases ?late)
      case True
      with Cons.prems ok t have "st = FAILURE" "lg' = ?lg2\<lparr>timed_out := True\<rparr>"
        by (auto simp: Let_def)
      with ok True show ?thesis
        by (intro exI [of _ 1]) auto
    next
      case False
      with Cons.prems ok t have r: "run_actions e cx a d rest ?lg2 ?w1 = (st, lg', w')"
        by (auto simp: Let_def)
      have nt: "\<not> timed_out ?lg2" using Cons.prems(2) by simp
      have s1: "w_start_time ?w1 a = Some t0" using Cons.prems(3) by simp
      from Cons.IH [OF r nt s1] obtain k where k: "k \<le> length rest"
        "length (ran_actions lg') = length (ran_actions ?lg2) + k"
        "\<forall>j. Suc j < k \<longrightarrow> clock e (w_ticks ?w1 + j) - t0 \<le> seconds (timeout_seconds d)"
        "timed_out lg' \<longleftrightarrow>
              (\<exists>j. k = Suc j \<and> execute_action e (rest ! j) cx = Some True \<and>
                   clock e (w_ticks ?w1 + j) - t0 > seconds (timeout_seconds d))"
        "st = SUCCESS \<longleftrightarrow>
              (\<forall>x\<in>set rest. execute_action e x cx = Some True) \<and>
              (\<forall>j<length rest. clock e (w_ticks ?w1 + j) - t0 \<le> seconds (timeout_seconds d))"
        by blast
      have early: "\<forall>j. Suc j < Suc k \<longrightarrow> clock e (w_ticks w + j) - t0 \<le> seconds (timeout_seconds d)"
      proof (intro allI impI)
        fix j assume "Suc j < Suc k"
        then show "clock e (w_ticks w + j) - t0 \<le> seconds (timeout_seconds d)"
          using k(3) False by (cases j) auto
      qed
      have tout: "timed_out lg' \<longleftrightarrow>
              (\<exists>j. Suc k = Suc j \<and> execute_action e ((x # rest) ! j) cx = Some True \<and>
                   clock e (w_ticks w + j) - t0 > seconds (timeout_seconds d))"
      proof (cases k)
        case 0
        with k(4) show ?thesis using False by auto
      next
        case (Suc k')
        with k(4) show ?thesis by auto
      qed
      have suc: "st = SUCCESS \<longleftrightarrow>
              (\<forall>y\<in>set (x # rest). execute_action e y cx = Some True) \<and>
              (\<forall>j<length (x # rest). clock e (w_ticks w + j) - t0 \<le> seconds (timeout_seconds d))"
      proof -
        have "(\<forall>j<length (x # rest). clock e (w_ticks w + j) - t0 \<le> seconds (timeout_seconds d))
                \<longleftrightarrow> (\<forall>j<length rest. clock e (w_ticks ?w1 + j) - t0 \<le> seconds (timeout_seconds d))"
          using False by (auto simp: less_Suc_eq_0_disj)
        with k(5) ok show ?thesis by auto
      qed
      show ?thesis
        using k(1,2) early tout suc
        by (intro exI [of _ "Suc k"]) auto
    qed
  qed
qed

lemma action_execute_clock:
  assumes "can_execute e d cx" and "action_execute e cx a d w = (st, lg, w')"
  shows "(\<forall>j. 1 \<le> j \<and> j < length (ran_actions lg) \<longrightarrow>
            clock e (w_ticks w + j) - clock e (w_ticks w) \<le> seconds (timeout_seconds d)) \<and>
         (timed_out lg \<longleftrightarrow>
            ran_actions lg \<noteq> [] \<and> snd (last (ran_actions lg)) = Some True \<and>
            clock e (w_ticks w + length (ran_actions lg)) - clock e (w_ticks w)
              > seconds (timeout_seconds d)) \<and>
         (st = SUCCESS \<longleftrightarrow>
            (\<forall>x\<in>set (actions d). execute_action e x cx = Some True) \<and>
            (\<forall>j. 1 \<le> j \<and> j \<le> length (actions d) \<longrightarrow>
               clock e (w_ticks w + j) - clock e (w_ticks w) \<le> seconds (timeout_seconds d)))"
proof -
  let ?t0 = "clock e (w_ticks w)"
  let ?w3 = "set_start_time a ?t0 ((set_status a RUNNING w)\<lparr>w_ticks := Suc (w_ticks w)\<rparr>)"
  let ?sec = "seconds (timeout_seconds d)"
  have "action_execute e cx a d w = run_actions e cx a d (actions d) empty_log ?w3"
    using assms(1) by (simp add: action_execute_def Let_def clock_now_def set_status_def)
  with assms(2) have r: "run_actions e cx a d (actions d) empty_log ?w3 = (st, lg, w')"
    by simp
  have nt: "\<not> timed_out empty_log" by (simp add: empty_log_def)
  have s: "w_start_time ?w3 a = Some ?t0" by (simp add: set_start_time_def)
  have tk: "w_ticks ?w3 = Suc (w_ticks w)" by (simp add: set_start_time_def set_status_def)
  from run_actions_clock [OF r nt s] obtain k where k: "k \<le> length (actions d)"
    "length (ran_actions lg) = k"
    "\<forall>j. Suc j < k \<longrightarrow> clock e (Suc (w_ticks w) + j) - ?t0 \<le> ?sec"
    "timed_out lg \<longleftrightarrow>
       (\<exists>j. k = Suc j \<and> execute_action e (actions d ! j) cx = Some True \<and>
            clock e (Suc (w_ticks w) + j) - ?t0 > ?sec)"
    "st = SUCCESS \<longleftrightarrow>
       (\<forall>x\<in>set (actions d). execute_action e x cx = Some True) \<and>
       (\<forall>j<length (actions d). clock e (Suc (w_ticks w) + j) - ?t0 \<le> ?sec)"
    unfolding tk by (auto simp: empty_log_def)
  from run_actions_log [OF r nt] obtain k' where k': "k' \<le> length (actions d)"
    "ran_actions lg = map (\<lambda>x. (x, execute_action e x cx)) (take k' (actions d))"
    by (auto simp: empty_log_def)
  have kk: "k' = k" using k(2) k'(1,2) by simp
  have lst: "snd (last (ran_actions lg)) = execute_action e (actions d ! j) cx" if "k = Suc j" for j
  proof -
    have ne: "take k (actions d) \<noteq> []" using that k(1) by auto
    have "last (take k (actions d)) = actions d ! j"
      using that k(1) ne by (simp add: last_conv_nth)
    then show ?thesis
      using ne by (simp add: k'(2) kk last_map)
  qed
  have early: "\<forall>j. 1 \<le> j \<and> j < length (ran_actions lg) \<longrightarrow>
            clock e (w_ticks w + j) - ?t0 \<le> ?sec"
  proof (intro allI impI)
    fix j assume j: "1 \<le> j \<and> j < length (ran_actions lg)"
    then obtain i where i: "j = Suc i" by (cases j) auto
    with j k(2) have "Suc i < k" by simp
    with k(3) have "clock e (Suc (w_ticks w) + i) - ?t0 \<le> ?sec" by blast
    then show "clock e (w_ticks w + j) - ?t0 \<le> ?sec" by (simp add: i)
  qed
  have tout: "timed_out lg \<longleftrightarrow>
            ran_actions lg \<noteq> [] \<and> snd (last (ran_actions lg)) = Some True \<and>
            clock e (w_ticks w + length (ran_actions lg)) - ?t0 > ?sec"
  proof (cases k)
    case 0
    with k(2,4) show ?thesis by auto
  next
    case (Suc i)
    have ne: "ran_actions lg \<noteq> []" using k(2) Suc by auto
    from k(4) Suc have "timed_out lg \<longleftrightarrow>
       execute_action e (actions d ! i) cx = Some True \<and> clock e (Suc (w_ticks w) + i) - ?t0 > ?sec"
      by auto
    with lst [OF Suc] ne k(2) Suc show ?thesis by simp
  qed
  have suc: "st = SUCCESS \<longleftrightarrow>
            (\<forall>x\<in>set (actions d). execute_action e x cx = Some True) \<and>
            (\<forall>j. 1 \<le> j \<and> j \<le> length (actions d) \<longrightarrow> clock e (w_ticks w + j) - ?t0 \<le> ?sec)"
  proof -
    have "(\<forall>j<length (actions d). clock e (Suc (w_ticks w) + j) - ?t0 \<le> ?sec) \<longleftrightarrow>
          (\<forall>j. 1 \<le> j \<and> j \<le> length (actions d) \<longrightarrow> clock e (w_ticks w + j) - ?t0 \<le> ?sec)"
    proof
      assume h: "\<forall>j<length (actions d). clock e (Suc (w_ticks w) + j) - ?t0 \<le> ?sec"
      show "\<forall>j. 1 \<le> j \<and> j \<le> length (actions d) \<longrightarrow> clock e (w_ticks w + j) - ?t0 \<le> ?sec"
      proof (intro allI impI)
        fix j assume j: "1 \<le> j \<and> j \<le> length (actions d)"
        then obtain i where i: "j = Suc i" by (cases j) auto
        with j h have "clock e (Suc (w_ticks w) + i) - ?t0 \<le> ?sec" by auto
        then show "clock e (w_ticks w + j) - ?t0 \<le> ?sec" by (simp add: i)
      qed
    next
      assume h: "\<forall>j. 1 \<le> j \<and> j \<le> length (actions d) \<longrightarrow> clock e (w_ticks w + j) - ?t0 \<le> ?sec"
      show "\<forall>j<length (actions d). clock e (Suc (w_ticks w) + j) - ?t0 \<le> ?sec"
      proof (intro allI impI)
        fix j assume "j < length (actions d)"
        then have "1 \<le> Suc j \<and> Suc j \<le> length (actions d)" by simp
        with h have "clock e (w_ticks w + Suc j) - ?t0 \<le> ?sec" by blast
        then show "clock e (Suc (w_ticks w) + j) - ?t0 \<le> ?sec" by simp
      qed
    qed
    with k(5) show ?thesis by simp
  qed
  show ?thesis using early tout suc by blast
qed

lemma run_actions_late:
  assumes "execute_action e action cx = Some True"
    and "w_start_time w0 a = Some t0"
    and "clock e (w_ticks w0) - t0 > seconds (timeout_seconds d)"
  shows "run_actions e cx a d (action # rest) lg0 w0 =
           (FAILURE,
            lg0\<lparr>ran_actions := ran_actions lg0 @ [(action, Some True)],
                timeout_checks := Suc (timeout_checks lg0), timed_out := True\<rparr>,
            set_status a FAILURE (w0\<lparr>w_ticks := Suc (w_ticks w0)\<rparr>))"
  by (simp add: assms(1) is_timed_out_late [OF assms(2,3)] Let_def)

lemma run_actions_in_time:
  assumes "execute_action e action cx = Some True"
    and "w_start_time w0 a = Some t0"
    and "clock e (w_ticks w0) - t0 \<le> seconds (timeout_seconds d)"
  shows "run_actions e cx a d (action # rest) lg0 w0 =
           run_actions e cx a d rest
             (lg0\<lparr>ran_actions := ran_actions lg0 @ [(action, Some True)],
                  timeout_checks := Suc (timeout_checks lg0)\<rparr>)
             (w0\<lparr>w_ticks := Suc (w_ticks w0)\<rparr>)"
  by (simp add: assms(1) is_timed_out_in_time [OF assms(2,3)] Let_def)

lemma action_execute_late:
  assumes "can_execute e d cx" and "1 \<le> j" and "j \<le> length (actions d)"
    and "clock e (w_ticks w + j) - clock e (w_ticks w) > seconds (timeout_seconds d)"
  shows "fst (action_execute e cx a d w) = FAILURE"
proof -
  obtain st lg w' where r: "action_execute e cx a d w = (st, lg, w')"
    by (cases "action_execute e cx a d w")
  from action_execute_clock [OF assms(1) r]
  have "st = SUCCESS \<longleftrightarrow>
          (\<forall>x\<in>set (actions d). execute_action e x cx = Some True) \<and>
          (\<forall>j. 1 \<le> j \<and> j \<le> length (actions d) \<longrightarrow>
             clock e (w_ticks w + j) - clock e (w_ticks w) \<le> seconds (timeout_seconds d))"
    by (rule conjunct2 [THEN conjunct2])
  moreover have "\<not> (\<forall>j. 1 \<le> j \<and> j \<le> length (actions d) \<longrightarrow>
             clock e (w_ticks w + j) - clock e (w_ticks w) \<le> seconds (timeout_seconds d))"
  proof
    assume "\<forall>j. 1 \<le> j \<and> j \<le> length (actions d) \<longrightarrow>
             clock e (w_ticks w + j) - clock e (w_ticks w) \<le> seconds (timeout_seconds d)"
    then have "clock e (w_ticks w + j) - clock e (w_ticks w) \<le> seconds (timeout_seconds d)"
      using assms(2,3) by blast
    with assms(4) show False by simp
  qed
  ultimately have "st \<noteq> SUCCESS" by simp
  moreover from action_execute_log [OF assms(1) r] have "st = SUCCESS \<or> st = FAILURE"
    by (rule conjunct2 [THEN conjunct2, THEN conjunct2, THEN conjunct1])
  ultimately show ?thesis by (simp add: r)
qed

lemma substitute_5: "substitute [(''x'', PInt 5)] ''{x}>0'' = ''5>0''"
  by code_simp

lemma substitute_minus_1: "substitute [(''x'', PInt (- 1))] ''{x}>0'' = ''-1>0''"
  by code_simp

lemma a1_node_unfold: "a1_node = Node 1 ActionState (node_defn a1_node) []"
  by (simp add: a1_node_def)

lemma a1_node_fields:
  "conditions (node_defn a1_node) = [''{x}>0'']"
  "actions (node_defn a1_node) = [''act'']"
  "timeout_seconds (node_defn a1_node) = 1"
  by (simp_all add: a1_node_def example_action_def)

lemma a1_succeeds:
  assumes "py_eval e ''5>0'' [(''x'', PInt 5)] = Some True"
    and "execute_action e ''act'' [(''x'', PInt 5)] = Some True"
    and "clock e (Suc (w_ticks w)) - clock e (w_ticks w) \<le> seconds 1"
  shows "fst (execute e [(''x'', PInt 5)] a1_node w) = SUCCESS"
proof -
  have c: "can_execute e (node_defn a1_node) [(''x'', PInt 5)]"
    using assms(1) by (simp add: can_execute_def a1_node_fields evaluate_condition_def substitute_5)
  have "execute e [(''x'', PInt 5)] a1_node w
          = action_execute e [(''x'', PInt 5)] 1 (node_defn a1_node) w"
    by (subst a1_node_unfold) simp
  then show ?thesis
    using c assms(2,3)
    by (simp add: action_execute_def a1_node_fields Let_def clock_now_def set_status_def
          set_start_time_def is_timed_out_def)
qed

lemma a1_fails:
  assumes "py_eval e ''-1>0'' [(''x'', PInt (- 1))] = Some False"
  shows "execute e [(''x'', PInt (- 1))] a1_node w = (FAILURE, empty_log, w)"
proof -
  have c: "\<not> can_execute e (node_defn a1_node) [(''x'', PInt (- 1))]"
    using assms by (simp add: can_execute_def a1_node_fields evaluate_condition_def substitute_minus_1)
  have "execute e [(''x'', PInt (- 1))] a1_node w
          = action_execute e [(''x'', PInt (- 1))] 1 (node_defn a1_node) w"
    by (subst a1_node_unfold) simp
  then show ?thesis
    using c by (simp add: action_execute_def)
qed

lemma a1_times_out:
  assumes "py_eval e ''5>0'' [(''x'', PInt 5)] = Some True"
    and "clock e (Suc (w_ticks w)) - clock e (w_ticks w) > seconds 1"
  shows "fst (execute e [(''x'', PInt 5)] a1_node w) = FAILURE"
proof -
  have c: "can_execute e (node_defn a1_node) [(''x'', PInt 5)]"
    using assms(1) by (simp add: can_execute_def a1_node_fields evaluate_condition_def substitute_5)
  have x: "execute e [(''x'', PInt 5)] a1_node w
          = action_execute e [(''x'', PInt 5)] 1 (node_defn a1_node) w"
    by (subst a1_node_unfold) simp
  have l: "clock e (w_ticks w + 1) - clock e (w_ticks w)
             > seconds (timeout_seconds (node_defn a1_node))"
    using assms(2) by (simp add: a1_node_fields)
  have "fst (action_execute e [(''x'', PInt 5)] 1 (node_defn a1_node) w) = FAILURE"
    by (rule action_execute_late [OF c _ _ l]) (simp_all add: a1_node_fields)
  then show ?thesis
    by (simp only: x)
qed

text \<open>
  Claim C6. An action node executes by \<open>action_execute\<close>; \<open>can_execute\<close> holds when
  every condition evaluates to true. If it does not hold the node returns \<open>FAILURE\<close>, runs
  no action and leaves the world as it was. Otherwise it runs an initial part of its
  actions in order, each recorded with the outcome of \<open>_execute_action\<close>; every action
  but the last one run succeeded; the timeout is checked after each successful action; the
  result is \<open>SUCCESS\<close> exactly when all actions were run, all succeeded and no timeout
  struck, and \<open>FAILURE\<close> otherwise. Concretely, for the action \<open>a1\<close> with the single
  condition \<open>{x}>0\<close>, one action and a timeout of one second: with \<open>{x: 5}\<close>, given that
  \<open>eval("5>0")\<close> is true, that the action succeeds and that the clock advances by at
  most a second, the result is \<open>SUCCESS\<close>; with \<open>{x: -1}\<close>, given that \<open>eval("-1>0")\<close>
  is false, the result is \<open>FAILURE\<close> with nothing run.

  The timeout is the clock's: \<open>is_timed_out\<close> holds exactly when the node has a start time
  and the clock now reads more than \<open>timeout_seconds\<close> after it. At any turn of the loop,
  with the node started at \<open>t0\<close> and the action at hand successful: if the clock reads more
  than \<open>timeout_seconds\<close> after \<open>t0\<close>, the loop stops with \<open>FAILURE\<close> and the remaining
  actions are not run; if it reads at most \<open>timeout_seconds\<close> after \<open>t0\<close>, the loop goes on
  with the remaining actions. For the whole node, when the conditions hold: the clock is
  read once on entry (the start time) and once after each successful action; every reading
  before the last one was at most \<open>timeout_seconds\<close> after the start time; the timeout
  struck exactly when the last action run succeeded and the reading after it was more than
  \<open>timeout_seconds\<close> after the start time; the result is \<open>SUCCESS\<close> exactly when every
  action succeeds and each of the readings after them is at most \<open>timeout_seconds\<close> after
  the start time; so a reading more than \<open>timeout_seconds\<close> after the start time, among
  those that as many successful actions would take, gives \<open>FAILURE\<close>. For \<open>a1\<close> with
  \<open>{x: 5}\<close>: when the clock advances by more than a second, the result is \<open>FAILURE\<close>.
\<close>

theorem action_runs_actions_in_order:
  "execute e cx (Node a ActionState d cs) w = action_execute e cx a d w \<and>
   can_execute e d cx = list_all (\<lambda>c. evaluate_condition e c cx) (conditions d) \<and>
   (\<not> can_execute e d cx \<longrightarrow> action_execute e cx a d w = (FAILURE, empty_log, w)) \<and>
   (can_execute e d cx \<longrightarrow>
      (case action_execute e cx a d w of
         (st, lg, w') \<Rightarrow>
           (\<exists>k\<le>length (actions d).
              ran_actions lg = map (\<lambda>x. (x, execute_action e x cx)) (take k (actions d))) \<and>
           list_all (\<lambda>r. r = Some True) (butlast (map snd (ran_actions lg))) \<and>
           (st = SUCCESS \<longleftrightarrow>
              length (ran_actions lg) = length (actions d) \<and>
              list_all (\<lambda>r. r = Some True) (map snd (ran_actions lg)) \<and> \<not> timed_out lg) \<and>
           (st = SUCCESS \<or> st = FAILURE) \<and>
           timeout_checks lg = length (filter (\<lambda>r. r = Some True) (map snd (ran_actions lg))) \<and>
           dispatched lg = [])) \<and>
   (py_eval e ''5>0'' [(''x'', PInt 5)] = Some True \<and>
    execute_action e ''act'' [(''x'', PInt 5)] = Some True \<and>
    clock e (Suc (w_ticks w)) - clock e (w_ticks w) \<le> seconds 1 \<longrightarrow>
      fst (execute e [(''x'', PInt 5)] a1_node w) = SUCCESS) \<and>
   (py_eval e ''-1>0'' [(''x'', PInt (- 1))] = Some False \<longrightarrow>
      execute e [(''x'', PInt (- 1))] a1_node w = (FAILURE, empty_log, w)) \<and>
   (fst (is_timed_out e a d w0) \<longleftrightarrow>
      (\<exists>t. w_start_time w0 a = Some t \<and>
           clock e (w_ticks w0) - t > seconds (timeout_seconds d))) \<and>
   (execute_action e action cx = Some True \<and> w_start_time w0 a = Some t0 \<and>
    clock e (w_ticks w0) - t0 > seconds (timeout_seconds d) \<longrightarrow>
      run_actions e cx a d (action # rest) lg0 w0 =
        (FAILURE,
         lg0\<lparr>ran_actions := ran_actions lg0 @ [(action, Some True)],
             timeout_checks := Suc (timeout_checks lg0), timed_out := True\<rparr>,
         set_status a FAILURE (w0\<lparr>w_ticks := Suc (w_ticks w0)\<rparr>))) \<and>
   (execute_action e action cx = Some True \<and> w_start_time w0 a = Some t0 \<and>
    clock e (w_ticks w0) - t0 \<le> seconds (timeout_seconds d) \<longrightarrow>
      run_actions e cx a d (action # rest) lg0 w0 =
        run_actions e cx a d rest
          (lg0\<lparr>ran_actions := ran_actions lg0 @ [(action, Some True)],
               timeout_checks := Suc (timeout_checks lg0)\<rparr>)
          (w0\<lparr>w_ticks := Suc (w_ticks w0)\<rparr>)) \<and>
   (can_execute e d cx \<longrightarrow>
      (case action_execute e cx a d w of
         (st, lg, w') \<Rightarrow>
           (\<forall>j. 1 \<le> j \<and> j < length (ran_actions lg) \<longrightarrow>
              clock e (w_ticks w + j) - clock e (w_ticks w) \<le> seconds (timeout_seconds d)) \<and>
           (timed_out lg \<longleftrightarrow>
              ran_actions lg \<noteq> [] \<and> snd (last (ran_actions lg)) = Some True \<and>
              clock e (w_ticks w + length (ran_actions lg)) - clock e (w_ticks w)
                > seconds (timeout_seconds d)) \<and>
           (st = SUCCESS \<longleftrightarrow>
              (\<forall>x\<in>set (actions d). execute_action e x cx = Some True) \<and>
              (\<forall>j. 1 \<le> j \<and> j \<le> length (actions d) \<longrightarrow>
                 clock e (w_ticks w + j) - clock e (w_ticks w) \<le> seconds (timeout_seconds d))))) \<and>
   (can_execute e d cx \<and> 1 \<le> j \<and> j \<le> length (actions d) \<and>
    clock e (w_ticks w + j) - clock e (w_ticks w) > seconds (timeout_seconds d) \<longrightarrow>
      fst (action_execute e cx a d w) = FAILURE) \<and>
   (py_eval e ''5>0'' [(''x'', PInt 5)] = Some True \<and>
    clock e (Suc (w_ticks w)) - clock e (w_ticks w) > seconds 1 \<longrightarrow>
      fst (execute e [(''x'', PInt 5)] a1_node w) = FAILURE)"
proof (intro conjI impI)
  show "execute e cx (Node a ActionState d cs) w = action_execute e cx a d w"
    by simp
  show "can_execute e d cx = list_all (\<lambda>c. evaluate_condition e c cx) (conditions d)"
    by (simp add: can_execute_def all_conditions_list_all)
  show "fst (is_timed_out e a d w0) \<longleftrightarrow>
      (\<exists>t. w_start_time w0 a = Some t \<and>
           clock e (w_ticks w0) - t > seconds (timeout_seconds d))"
    by (rule is_timed_out_iff)
next
  assume "\<not> can_execute e d cx"
  then show "action_execute e cx a d w = (FAILURE, empty_log, w)"
    by (simp add: action_execute_def)
next
  assume c: "can_execute e d cx"
  obtain st lg w' where r: "action_execute e cx a d w = (st, lg, w')"
    by (cases "action_execute e cx a d w")
  from action_execute_log [OF c r] show
    "case action_execute e cx a d w of
         (st, lg, w') \<Rightarrow>
           (\<exists>k\<le>length (actions d).
              ran_actions lg = map (\<lambda>x. (x, execute_action e x cx)) (take k (actions d))) \<and>
           list_all (\<lambda>r. r = Some True) (butlast (map snd (ran_actions lg))) \<and>
           (st = SUCCESS \<longleftrightarrow>
              length (ran_actions lg) = length (actions d) \<and>
              list_all (\<lambda>r. r = Some True) (map snd (ran_actions lg)) \<and> \<not> timed_out lg) \<and>
           (st = SUCCESS \<or> st = FAILURE) \<and>
           timeout_checks lg = length (filter (\<lambda>r. r = Some True) (map snd (ran_actions lg))) \<and>
           dispatched lg = []"
    unfolding r prod.case .
  from action_execute_clock [OF c r] show
    "case action_execute e cx a d w of
         (st, lg, w') \<Rightarrow>
           (\<forall>j. 1 \<le> j \<and> j < length (ran_actions lg) \<longrightarrow>
              clock e (w_ticks w + j) - clock e (w_ticks w) \<le> seconds (timeout_seconds d)) \<and>
           (timed_out lg \<longleftrightarrow>
              ran_actions lg \<noteq> [] \<and> snd (last (ran_actions lg)) = Some True \<and>
              clock e (w_ticks w + length (ran_actions lg)) - clock e (w_ticks w)
                > seconds (timeout_seconds d)) \<and>
           (st = SUCCESS \<longleftrightarrow>
              (\<forall>x\<in>set (actions d). execute_action e x cx = Some True) \<and>
              (\<forall>j. 1 \<le> j \<and> j \<le> length (actions d) \<longrightarrow>
                 clock e (w_ticks w + j) - clock e (w_ticks w) \<le> seconds (timeout_seconds d)))"
    unfolding r prod.case .
next
  assume "py_eval e ''5>0'' [(''x'', PInt 5)] = Some True \<and>
    execute_action e ''act'' [(''x'', PInt 5)] = Some True \<and>
    clock e (Suc (w_ticks w)) - clock e (w_ticks w) \<le> seconds 1"
  then show "fst (execute e [(''x'', PInt 5)] a1_node w) = SUCCESS"
    using a1_succeeds by blast
next
  assume "py_eval e ''-1>0'' [(''x'', PInt (- 1))] = Some False"
  then show "execute e [(''x'', PInt (- 1))] a1_node w = (FAILURE, empty_log, w)"
    by (rule a1_fails)
next
  assume h: "execute_action e action cx = Some True \<and> w_start_time w0 a = Some t0 \<and>
    clock e (w_ticks w0) - t0 > seconds (timeout_seconds d)"
  then have x: "execute_action e action cx = Some True" and s: "w_start_time w0 a = Some t0"
    and l: "clock e (w_ticks w0) - t0 > seconds (timeout_seconds d)"
    by simp_all
  from run_actions_late [OF x s l]
  show "run_actions e cx a d (action # rest) lg0 w0 =
        (FAILURE,
         lg0\<lparr>ran_actions := ran_actions lg0 @ [(action, Some True)],
             timeout_checks := Suc (timeout_checks lg0), timed_out := True\<rparr>,
         set_status a FAILURE (w0\<lparr>w_ticks := Suc (w_ticks w0)\<rparr>))" .
next
  assume h: "execute_action e action cx = Some True \<and> w_start_time w0 a = Some t0 \<and>
    clock e (w_ticks w0) - t0 \<le> seconds (timeout_seconds d)"
  then have x: "execute_action e action cx = Some True" and s: "w_start_time w0 a = Some t0"
    and l: "clock e (w_ticks w0) - t0 \<le> seconds (timeout_seconds d)"
    by simp_all
  from run_actions_in_time [OF x s l]
  show "run_actions e cx a d (action # rest) lg0 w0 =
        run_actions e cx a d rest
          (lg0\<lparr>ran_actions := ran_actions lg0 @ [(action, Some True)],
               timeout_checks := Suc (timeout_checks lg0)\<rparr>)
          (w0\<lparr>w_ticks := Suc (w_ticks w0)\<rparr>)" .
next
  assume h: "can_execute e d cx \<and> 1 \<le> j \<and> j \<le> length (actions d) \<and>
    clock e (w_ticks w + j) - clock e (w_ticks w) > seconds (timeout_seconds d)"
  then have c: "can_execute e d cx" and j1: "1 \<le> j" and j2: "j \<le> length (actions d)"
    and l: "clock e (w_ticks w + j) - clock e (w_ticks w) > seconds (timeout_seconds d)"
    by simp_all
  from action_execute_late [OF c j1 j2 l]
  show "fst (action_execute e cx a d w) = FAILURE" .
next
  assume h: "py_eval e ''5>0'' [(''x'', PInt 5)] = Some True \<and>
    clock e (Suc (w_ticks w)) - clock e (w_ticks w) > seconds 1"
  from a1_times_out [OF conjunct1 [OF h] conjunct2 [OF h]]
  show "fst (execute e [(''x'', PInt 5)] a1_node w) = FAILURE" .
qed

theorem action_runs_actions_in_order_witness:
  "py_eval example_env ''5>0'' [(''x'', PInt 5)] = Some True \<and>
   execute_action example_env ''act'' [(''x'', PInt 5)] = Some True \<and>
   clock example_env (Suc (w_ticks fresh_world)) - clock example_env (w_ticks fresh_world) \<le> seconds 1 \<and>
   fst (execute example_env [(''x'', PInt 5)] a1_node fresh_world) = SUCCESS \<and>
   py_eval example_env ''-1>0'' [(''x'', PInt (- 1))] = Some False \<and>
   execute example_env [(''x'', PInt (- 1))] a1_node fresh_world = (FAILURE, empty_log, fresh_world) \<and>
   can_execute example_env (node_defn a1_node) [(''x'', PInt 5)] \<and>
   dispatched (fst (snd (action_execute example_env [(''x'', PInt 5)] 1 (node_defn a1_node) fresh_world))) = [] \<and>
   \<not> can_execute example_env (node_defn a1_node) [(''x'', PInt (- 1))] \<and>
   action_execute example_env [(''x'', PInt (- 1))] 1 (node_defn a1_node) fresh_world
     = (FAILURE, empty_log, fresh_world) \<and>
   py_eval jump_env ''5>0'' [(''x'', PInt 5)] = Some True \<and>
   clock jump_env (Suc (w_ticks fresh_world)) - clock jump_env (w_ticks fresh_world) > seconds 1 \<and>
   fst (execute jump_env [(''x'', PInt 5)] a1_node fresh_world) = FAILURE \<and>
   can_execute jump_env (node_defn a1_node) [(''x'', PInt 5)] \<and>
   (1 :: nat) \<le> 1 \<and>
   1 \<le> length (actions (node_defn a1_node)) \<and>
   clock jump_env (w_ticks fresh_world + 1) - clock jump_env (w_ticks fresh_world)
     > seconds (timeout_seconds (node_defn a1_node)) \<and>
   fst (action_execute jump_env [(''x'', PInt 5)] 1 (node_defn a1_node) fresh_world) = FAILURE \<and>
   timed_out (fst (snd (action_execute jump_env [(''x'', PInt 5)] 1 (node_defn a1_node) fresh_world))) \<and>
   \<not> timed_out (fst (snd (action_execute example_env [(''x'', PInt 5)] 1 (node_defn a1_node) fresh_world))) \<and>
   w_start_time (started_world 1 0 0) 1 = Some 0 \<and>
   clock example_env (w_ticks (started_world 1 0 0)) - 0
     > seconds (timeout_seconds (node_defn a1_node)) \<and>
   fst (is_timed_out example_env 1 (node_defn a1_node) (started_world 1 0 0)) \<and>
   fst (run_actions example_env [(''x'', PInt 5)] 1 (node_defn a1_node) [''act'', ''act'']
          empty_log (started_world 1 0 0)) = FAILURE \<and>
   ran_actions (fst (snd (run_actions example_env [(''x'', PInt 5)] 1 (node_defn a1_node)
          [''act'', ''act''] empty_log (started_world 1 0 0)))) = [(''act'', Some True)] \<and>
   w_start_time (started_world 1 (seconds 100) 0) 1 = Some (seconds 100) \<and>
   clock example_env (w_ticks (started_world 1 (seconds 100) 0)) - seconds 100
     \<le> seconds (timeout_seconds (node_defn a1_node)) \<and>
   fst (run_actions example_env [(''x'', PInt 5)] 1 (node_defn a1_node) [''act'']
          empty_log (started_world 1 (seconds 100) 0)) = SUCCESS"
proof -
  have p: "py_eval example_env ''5>0'' [(''x'', PInt 5)] = Some True"
    by code_simp
  have x: "execute_action example_env ''act'' [(''x'', PInt 5)] = Some True"
    by code_simp
  have t: "clock example_env (Suc (w_ticks fresh_world)) - clock example_env (w_ticks fresh_world)
             \<le> seconds 1"
    by code_simp
  have q: "py_eval example_env ''-1>0'' [(''x'', PInt (- 1))] = Some False"
    by code_simp
  have c: "can_execute example_env (node_defn a1_node) [(''x'', PInt 5)]"
    by code_simp
  have n: "\<not> can_execute example_env (node_defn a1_node) [(''x'', PInt (- 1))]"
    by code_simp
  note pos = action_runs_actions_in_order
      [where e = example_env and w = fresh_world and cx = "[(''x'', PInt 5)]" and a = 1
         and d = "node_defn a1_node"]
  note neg = action_runs_actions_in_order
      [where e = example_env and w = fresh_world and cx = "[(''x'', PInt (- 1))]" and a = 1
         and d = "node_defn a1_node"]
  from pos p x t have s: "fst (execute example_env [(''x'', PInt 5)] a1_node fresh_world) = SUCCESS"
    by blast
  from neg q have f: "execute example_env [(''x'', PInt (- 1))] a1_node fresh_world
                        = (FAILURE, empty_log, fresh_world)"
    by blast
  from pos c have "case action_execute example_env [(''x'', PInt 5)] 1 (node_defn a1_node) fresh_world of
      (st, lg, w') \<Rightarrow> dispatched lg = []"
    by (auto split: prod.splits)
  then have d: "dispatched (fst (snd (action_execute example_env [(''x'', PInt 5)] 1
                   (node_defn a1_node) fresh_world))) = []"
    by (simp split: prod.splits)
  from neg n have a: "action_execute example_env [(''x'', PInt (- 1))] 1 (node_defn a1_node) fresh_world
     = (FAILURE, empty_log, fresh_world)"
    by blast
  have jp: "py_eval jump_env ''5>0'' [(''x'', PInt 5)] = Some True"
    by code_simp
  have jt: "clock jump_env (Suc (w_ticks fresh_world)) - clock jump_env (w_ticks fresh_world)
              > seconds 1"
    by code_simp
  have jc: "can_execute jump_env (node_defn a1_node) [(''x'', PInt 5)]"
    by code_simp
  have j1: "(1 :: nat) \<le> 1"
    by simp
  have j2: "1 \<le> length (actions (node_defn a1_node))"
    by code_simp
  have jl: "clock jump_env (w_ticks fresh_world + 1) - clock jump_env (w_ticks fresh_world)
     > seconds (timeout_seconds (node_defn a1_node))"
    by code_simp
  note jump = action_runs_actions_in_order
      [where e = jump_env and w = fresh_world and cx = "[(''x'', PInt 5)]" and a = 1
         and d = "node_defn a1_node" and j = 1]
  note jump_a1 = jump [THEN conjunct2, THEN conjunct2, THEN conjunct2, THEN conjunct2,
      THEN conjunct2, THEN conjunct2, THEN conjunct2, THEN conjunct2, THEN conjunct2,
      THEN conjunct2, THEN conjunct2]
  from jump_a1 [THEN mp, OF conjI [OF jp jt]]
  have jf: "fst (execute jump_env [(''x'', PInt 5)] a1_node fresh_world) = FAILURE" .
  note jump_late = jump [THEN conjunct2, THEN conjunct2, THEN conjunct2, THEN conjunct2,
      THEN conjunct2, THEN conjunct2, THEN conjunct2, THEN conjunct2, THEN conjunct2,
      THEN conjunct2, THEN conjunct1]
  from jump_late [THEN mp, OF conjI [OF jc conjI [OF j1 conjI [OF j2 jl]]]]
  have ja: "fst (action_execute jump_env [(''x'', PInt 5)] 1 (node_defn a1_node) fresh_world)
              = FAILURE" .
  note jump_readings = jump [THEN conjunct2, THEN conjunct2, THEN conjunct2, THEN conjunct2,
      THEN conjunct2, THEN conjunct2, THEN conjunct2, THEN conjunct2, THEN conjunct2,
      THEN conjunct1, THEN mp, OF jc]
  have jr: "ran_actions (fst (snd (action_execute jump_env [(''x'', PInt 5)] 1 (node_defn a1_node)
                fresh_world))) \<noteq> [] \<and>
            snd (last (ran_actions (fst (snd (action_execute jump_env [(''x'', PInt 5)] 1
                (node_defn a1_node) fresh_world))))) = Some True \<and>
            clock jump_env (w_ticks fresh_world + length (ran_actions (fst (snd (action_execute
                jump_env [(''x'', PInt 5)] 1 (node_defn a1_node) fresh_world)))))
              - clock jump_env (w_ticks fresh_world)
              > seconds (timeout_seconds (node_defn a1_node))"
    by code_simp
  from jump_readings jr
  have jo: "timed_out (fst (snd (action_execute jump_env [(''x'', PInt 5)] 1 (node_defn a1_node)
              fresh_world)))"
    by (simp split: prod.splits)
  note pos_clock = pos [THEN conjunct2, THEN conjunct2, THEN conjunct2, THEN conjunct2,
      THEN conjunct2, THEN conjunct2, THEN conjunct2, THEN conjunct2, THEN conjunct2,
      THEN conjunct1, THEN mp, OF c]
  have pr: "\<not> (clock example_env (w_ticks fresh_world + length (ran_actions (fst (snd (action_execute
                example_env [(''x'', PInt 5)] 1 (node_defn a1_node) fresh_world)))))
              - clock example_env (w_ticks fresh_world)
              > seconds (timeout_seconds (node_defn a1_node)))"
    by code_simp
  from pos_clock pr
  have po: "\<not> timed_out (fst (snd (action_execute example_env [(''x'', PInt 5)] 1
              (node_defn a1_node) fresh_world)))"
    by (simp split: prod.splits)
  have ls: "w_start_time (started_world 1 0 0) 1 = Some 0"
    by code_simp
  have ll: "clock example_env (w_ticks (started_world 1 0 0)) - 0
     > seconds (timeout_seconds (node_defn a1_node))"
    by code_simp
  note late = action_runs_actions_in_order
      [where e = example_env and cx = "[(''x'', PInt 5)]" and a = 1 and d = "node_defn a1_node"
         and ?w0.0 = "started_world 1 0 0" and ?t0.0 = 0 and ?lg0.0 = empty_log
         and action = "''act''" and rest = "[''act'']"]
  note late_iff = late [THEN conjunct2, THEN conjunct2, THEN conjunct2, THEN conjunct2,
      THEN conjunct2, THEN conjunct2, THEN conjunct1]
  have le: "\<exists>t. w_start_time (started_world 1 0 0) 1 = Some t \<and>
              clock example_env (w_ticks (started_world 1 0 0)) - t
                > seconds (timeout_seconds (node_defn a1_node))"
    using ls ll by (intro exI [of _ 0] conjI)
  from late_iff [THEN iffD2, OF le]
  have lt: "fst (is_timed_out example_env 1 (node_defn a1_node) (started_world 1 0 0))" .
  note late_loop = late [THEN conjunct2, THEN conjunct2, THEN conjunct2, THEN conjunct2,
      THEN conjunct2, THEN conjunct2, THEN conjunct2, THEN conjunct1,
      THEN mp, OF conjI [OF x conjI [OF ls ll]]]
  have lf: "fst (run_actions example_env [(''x'', PInt 5)] 1 (node_defn a1_node) [''act'', ''act'']
          empty_log (started_world 1 0 0)) = FAILURE"
    and lr: "ran_actions (fst (snd (run_actions example_env [(''x'', PInt 5)] 1 (node_defn a1_node)
          [''act'', ''act''] empty_log (started_world 1 0 0)))) = [(''act'', Some True)]"
    unfolding late_loop by (simp_all add: empty_log_def)
  have ts: "w_start_time (started_world 1 (seconds 100) 0) 1 = Some (seconds 100)"
    by code_simp
  have tl: "clock example_env (w_ticks (started_world 1 (seconds 100) 0)) - seconds 100
     \<le> seconds (timeout_seconds (node_defn a1_node))"
    by code_simp
  note in_time = action_runs_actions_in_order
      [where e = example_env and cx = "[(''x'', PInt 5)]" and a = 1 and d = "node_defn a1_node"
         and ?w0.0 = "started_world 1 (seconds 100) 0" and ?t0.0 = "seconds 100"
         and ?lg0.0 = empty_log and action = "''act''" and rest = "[]"]
  note in_time_loop = in_time [THEN conjunct2, THEN conjunct2, THEN conjunct2, THEN conjunct2,
      THEN conjunct2, THEN conjunct2, THEN conjunct2, THEN conjunct2, THEN conjunct1,
      THEN mp, OF conjI [OF x conjI [OF ts tl]]]
  have tf: "fst (run_actions example_env [(''x'', PInt 5)] 1 (node_defn a1_node) [''act'']
          empty_log (started_world 1 (seconds 100) 0)) = SUCCESS"
    unfolding in_time_loop by simp
  show ?thesis
    using p x t s q f c d n a jp jt jf jc j1 j2 jl ja jo po ls ll lt lf lr ts tl tf
    by (intro conjI)
qed

end
